theory Spec2Isabelle
  imports Complex_Main
begin

section \<open>Data model of \<^verbatim>\<open>2pt_box/load_conf.c\<close>\<close>

text \<open>
  Error codes returned by the verification functions. The header \<^verbatim>\<open>define.h\<close> that gives
  their numeric values is not among the files modelled here; the code only relies on their
  being non-zero and pairwise different (\<^verbatim>\<open>if (!e)\<close>, \<^verbatim>\<open>e == FCFC_ERR_SAVE\<close>), which a
  datatype expresses. A return value of 0 is \<open>None\<close> (for \<^verbatim>\<open>check_output\<close>) or \<open>Inr\<close>.
\<close>

datatype error = FCFC_ERR_MEMORY | FCFC_ERR_CFG | FCFC_ERR_FILE | FCFC_ERR_SAVE

text \<open>
  A C \<^verbatim>\<open>double\<close>. The code only classifies box sizes (\<^verbatim>\<open>isfinite\<close>, \<^verbatim>\<open><= 0\<close>) and never
  computes with them, so a value is a real number, an infinity or a NaN.
\<close>

datatype double = Finite real | PosInf | NegInf | NaN

fun isfinite :: "double \<Rightarrow> bool" where
  "isfinite (Finite r) = True"
| "isfinite PosInf = False"
| "isfinite NegInf = False"
| "isfinite NaN = False"

text \<open>The comparison \<^verbatim>\<open>d <= 0\<close> of IEEE arithmetic: false on NaN.\<close>

fun dle0 :: "double \<Rightarrow> bool" where
  "dle0 (Finite r) = (r \<le> 0)"
| "dle0 PosInf = False"
| "dle0 NegInf = True"
| "dle0 NaN = False"

text \<open>The IEEE comparison \<^verbatim>\<open>a < b\<close>.\<close>

fun dlt :: "double \<Rightarrow> double \<Rightarrow> bool" where
  "dlt NaN b = False"
| "dlt a NaN = False"
| "dlt (Finite a) (Finite b) = (a < b)"
| "dlt (Finite a) PosInf = True"
| "dlt (Finite a) NegInf = False"
| "dlt PosInf b = False"
| "dlt NegInf NegInf = False"
| "dlt NegInf b = True"

datatype amode = F_OK | R_OK | W_OK | X_OK

datatype alloc_site = A_conf | A_label | A_has_wt | A_bsize | A_comp_pc

text \<open>The configuration parameters registered with libcfg in \<^verbatim>\<open>conf_read\<close>.\<close>

datatype param =
    P_fconf | P_label | P_wt | P_bsize | P_dstruct | P_bintype | P_pc | P_pcout
  | P_cf | P_cfout | P_poles | P_mpout | P_wp | P_wpout | P_ofmt | P_ovwrite | P_verbose

text \<open>
  The macros of \<^verbatim>\<open>define.h\<close> that \<^verbatim>\<open>load_conf.c\<close> uses. The header is not among the
  files modelled here, so the values are parameters of the model.
\<close>

record define_h =
  FCFC_MAX_ELL :: int
  FCFC_OVERWRITE_NONE :: int
  FCFC_OVERWRITE_CFONLY :: int
  FCFC_OVERWRITE_ALL :: int
  DEFAULT_OVERWRITE :: int
  FCFC_STRUCT_KDTREE :: int
  FCFC_STRUCT_BALLTREE :: int
  DEFAULT_STRUCT :: int
  FCFC_BIN_ISO :: int
  FCFC_BIN_SMU :: int
  FCFC_BIN_SPI :: int
  DEFAULT_BINNING :: int
  DEFAULT_PROJECTED_CF :: bool
  FCFC_OFMT_BIN :: int
  FCFC_OFMT_ASCII :: int
  DEFAULT_OUTPUT_FORMAT :: int
  DEFAULT_VERBOSE :: bool
  FCFC_PATH_SEP :: char

text \<open>
  The operating system as the verification sees it: \<open>access E f m\<close> holds when the call
  \<^verbatim>\<open>access(f, m)\<close> returns 0, and \<open>alloc_ok E a\<close> holds when the allocation at site \<open>a\<close>
  returns a non-NULL pointer.
\<close>

record os =
  access :: "string \<Rightarrow> amode \<Rightarrow> bool"
  alloc_ok :: "alloc_site \<Rightarrow> bool"

text \<open>
  The libcfg handle: \<open>cfg_is_set\<close> and \<open>cfg_get_size\<close> answer for each registered
  parameter. libcfg is not among the files modelled here; both functions are parameters.
  \<open>cfg_get_size\<close> is the number of elements of an array parameter, 0 when there is none.
\<close>

record cfg_t =
  cfg_is_set :: "param \<Rightarrow> bool"
  cfg_get_size :: "param \<Rightarrow> nat"

text \<open>
  The structure \<^verbatim>\<open>CONF\<close>. An array is a list; a NULL array pointer is the empty list.
  A C string is the list of its characters before the terminating NUL.
\<close>

record CONF =
  fconf :: string
  label :: "char list"
  ninput :: nat
  has_wt :: "bool list"
  bsize :: "double list"
  ovwrite :: int
  dstruct :: int
  bintype :: int
  pc :: "string list"
  npc :: nat
  comp_pc :: "bool list"
  pcout :: "string list"
  cf :: "string list"
  ncf :: nat
  cfout :: "string list"
  poles :: "int list"
  npole :: nat
  mpout :: "string list"
  wp :: bool
  wpout :: "string list"
  ofmt :: int
  verbose :: bool

section \<open>Characters and strings\<close>

text \<open>
  \<^verbatim>\<open>s[k]\<close> of a C string: the character at \<open>k\<close>, and the terminating NUL right after the
  last one. The code reads \<^verbatim>\<open>s[k]\<close> only after \<^verbatim>\<open>s[0..k-1]\<close> were found to be letters.
\<close>

definition c_at :: "string \<Rightarrow> nat \<Rightarrow> char" where
  "c_at s k = (if k < length s then s ! k else CHR 0x00)"

text \<open>
  \<^verbatim>\<open>c < 'A' || c > 'Z'\<close>. A byte above 127 is below \<^verbatim>\<open>'A'\<close> where \<^verbatim>\<open>char\<close> is signed and
  above \<^verbatim>\<open>'Z'\<close> where it is unsigned: the test holds either way.
\<close>

definition not_upper :: "char \<Rightarrow> bool" where
  "not_upper c = ((of_char c :: nat) < of_char (CHR ''A'') \<or> (of_char c :: nat) > of_char (CHR ''Z''))"

section \<open>Loops with an early return\<close>

definition bind_err :: "error + 'a \<Rightarrow> ('a \<Rightarrow> error + 'b) \<Rightarrow> error + 'b" where
  "bind_err m f = (case m of Inl e \<Rightarrow> Inl e | Inr x \<Rightarrow> f x)"

text \<open>\<^verbatim>\<open>for (i in is) { body; }\<close> where the body may return an error code.\<close>

fun for_loop :: "nat list \<Rightarrow> (nat \<Rightarrow> 's \<Rightarrow> error + 's) \<Rightarrow> 's \<Rightarrow> error + 's" where
  "for_loop [] body s = Inr s"
| "for_loop (i # is) body s = (case body i s of Inl e \<Rightarrow> Inl e | Inr s' \<Rightarrow> for_loop is body s')"

section \<open>\<^verbatim>\<open>check_output\<close>\<close>

definition is_no :: "char \<Rightarrow> bool" where
  "is_no c = (c = CHR ''n'' \<or> c = CHR ''N'')"

definition is_yes :: "char \<Rightarrow> bool" where
  "is_yes c = (c = CHR ''y'' \<or> c = CHR ''Y'')"

text \<open>\<^verbatim>\<open>while((c = getchar()) != '\n' && c != EOF) continue;\<close> on the standard input.\<close>

fun flush_line :: "string \<Rightarrow> string" where
  "flush_line [] = []"
| "flush_line (c # cs) = (if c = CHR 0x0A then cs else flush_line cs)"

text \<open>
  The loop \<^verbatim>\<open>for (int i = 0; i != ovwrite; i--)\<close> for a negative \<^verbatim>\<open>ovwrite\<close>: at most
  \<open>- ovwrite\<close> questions. It returns the last character read into \<^verbatim>\<open>confirm\<close> and the rest
  of the standard input; the loop is left early exactly on one of y, Y, n, N.
\<close>

fun ask_overwrite :: "nat \<Rightarrow> char \<Rightarrow> string \<Rightarrow> char \<times> string" where
  "ask_overwrite 0 confirm inp = (confirm, inp)"
| "ask_overwrite (Suc n) confirm [] = ask_overwrite n confirm []"
| "ask_overwrite (Suc n) confirm (c # rest) =
     (if is_no c \<or> is_yes c then (c, flush_line rest)
      else ask_overwrite n c (flush_line rest))"

text \<open>
  \<^verbatim>\<open>strrchr(fname, FCFC_PATH_SEP)\<close> followed by \<^verbatim>\<open>*end = '\0'\<close>: the directory part of the
  file name, when there is a separator.
\<close>

definition path_dir :: "char \<Rightarrow> string \<Rightarrow> string option" where
  "path_dir sep fname =
     (if sep \<in> set fname then Some (rev (tl (dropWhile (\<lambda>c. c \<noteq> sep) (rev fname)))) else None)"

definition check_output ::
  "define_h \<Rightarrow> os \<Rightarrow> string \<Rightarrow> int \<Rightarrow> int \<Rightarrow> string \<Rightarrow> error option \<times> string" where
  "check_output D E fname ovw force inp =
     (if fname = [] then (Some FCFC_ERR_CFG, inp)
      else if access E fname F_OK then
        (let (confirm, inp') =
               (if ovw < 0 then ask_overwrite (nat (- ovw)) (CHR 0x00) inp else (CHR 0x00, inp));
             ovw' = (if ovw < 0 then
                       (if is_no confirm then force - 1
                        else if is_yes confirm then force else ovw)
                     else ovw)
         in if ovw < 0 \<and> \<not> is_yes confirm \<and> \<not> is_no confirm then (Some FCFC_ERR_FILE, inp')
            else if ovw' \<le> FCFC_OVERWRITE_NONE D then (Some FCFC_ERR_FILE, inp')
            else if ovw' \<ge> force then
              (if \<not> access E fname W_OK then (Some FCFC_ERR_FILE, inp') else (None, inp'))
            else
              (if \<not> access E fname R_OK then (Some FCFC_ERR_FILE, inp')
               else (Some FCFC_ERR_SAVE, inp')))
      else
        (case path_dir (FCFC_PATH_SEP D) fname of
           None \<Rightarrow> (None, inp)
         | Some dir \<Rightarrow> if \<not> access E dir X_OK then (Some FCFC_ERR_FILE, inp) else (None, inp)))"

section \<open>\<^verbatim>\<open>conf_verify\<close>, section by section\<close>

subsection \<open>CATALOG_LABEL\<close>

text \<open>\<^verbatim>\<open>for (int i = 0; i < conf->ninput; i++) conf->label[i] = 'A' + i;\<close>\<close>

definition default_labels :: "nat \<Rightarrow> char list" where
  "default_labels n = map (\<lambda>i. char_of (of_char (CHR ''A'') + i)) [0..<n]"

definition verify_label :: "cfg_t \<Rightarrow> os \<Rightarrow> CONF \<Rightarrow> error + CONF" where
  "verify_label cfg E conf0 =
     (let num = cfg_get_size cfg P_label;
          conf = conf0\<lparr>ninput := cfg_get_size cfg P_label\<rparr>
      in if num = 0 then
           (if \<not> alloc_ok E A_label then Inl FCFC_ERR_MEMORY
            else Inr (conf\<lparr>label := default_labels (ninput conf)\<rparr>))
         else if num < ninput conf then Inl FCFC_ERR_CFG
         else if list_ex (\<lambda>i. not_upper (label conf ! i)) [0..<ninput conf]
           then Inl FCFC_ERR_CFG
         else if list_ex (\<lambda>i. list_ex (\<lambda>j. label conf ! i = label conf ! j)
                                  [i + 1..<ninput conf]) [0..<ninput conf - 1]
           then Inl FCFC_ERR_CFG
         else Inr conf)"

subsection \<open>WEIGHT\<close>

definition verify_weight :: "os \<Rightarrow> CONF \<Rightarrow> error + CONF" where
  "verify_weight E conf =
     (if \<not> alloc_ok E A_has_wt then Inl FCFC_ERR_MEMORY
      else Inr (conf\<lparr>has_wt := replicate (ninput conf) True\<rparr>))"

subsection \<open>BOX_SIZE\<close>

definition verify_box :: "cfg_t \<Rightarrow> os \<Rightarrow> CONF \<Rightarrow> error + CONF" where
  "verify_box cfg E conf0 =
     (let num = cfg_get_size cfg P_bsize
      in if num = 0 then Inl FCFC_ERR_CFG
         else bind_err
           (if num = 1 then
              (if \<not> alloc_ok E A_bsize then Inl FCFC_ERR_MEMORY
               else Inr (conf0\<lparr>bsize := [bsize conf0 ! 0, bsize conf0 ! 0, bsize conf0 ! 0]\<rparr>))
            else if num < 3 then Inl FCFC_ERR_CFG
            else Inr conf0)
           (\<lambda>conf. if list_ex (\<lambda>i. \<not> isfinite (bsize conf ! i) \<or> dle0 (bsize conf ! i)) [0..<3]
                    then Inl FCFC_ERR_CFG else Inr conf))"

subsection \<open>OVERWRITE, DATA_STRUCT, BINNING_SCHEME\<close>

definition verify_overwrite :: "define_h \<Rightarrow> cfg_t \<Rightarrow> CONF \<Rightarrow> CONF" where
  "verify_overwrite D cfg conf =
     (if \<not> cfg_is_set cfg P_ovwrite then conf\<lparr>ovwrite := DEFAULT_OVERWRITE D\<rparr> else conf)"

definition verify_dstruct :: "define_h \<Rightarrow> cfg_t \<Rightarrow> CONF \<Rightarrow> error + CONF" where
  "verify_dstruct D cfg conf0 =
     (let conf = (if \<not> cfg_is_set cfg P_dstruct then conf0\<lparr>dstruct := DEFAULT_STRUCT D\<rparr>
                  else conf0)
      in if dstruct conf = FCFC_STRUCT_KDTREE D \<or> dstruct conf = FCFC_STRUCT_BALLTREE D
         then Inr conf else Inl FCFC_ERR_CFG)"

definition verify_bintype :: "define_h \<Rightarrow> cfg_t \<Rightarrow> CONF \<Rightarrow> error + CONF" where
  "verify_bintype D cfg conf0 =
     (let conf = (if \<not> cfg_is_set cfg P_bintype then conf0\<lparr>bintype := DEFAULT_BINNING D\<rparr>
                  else conf0)
      in if bintype conf = FCFC_BIN_ISO D \<or> bintype conf = FCFC_BIN_SMU D
            \<or> bintype conf = FCFC_BIN_SPI D
         then Inr conf else Inl FCFC_ERR_CFG)"

subsection \<open>PAIR_COUNT\<close>

text \<open>\<^verbatim>\<open>s[0] < 'A' || s[0] > 'Z' || s[1] < 'A' || s[1] > 'Z' || s[2]\<close>\<close>

definition pc_invalid :: "string \<Rightarrow> bool" where
  "pc_invalid s = (not_upper (c_at s 0) \<or> not_upper (c_at s 1) \<or> c_at s 2 \<noteq> CHR 0x00)"

text \<open>
  The array \<^verbatim>\<open>comp_pc\<close> comes from \<^verbatim>\<open>malloc\<close>: its contents are indeterminate until the
  loops below assign every element; \<open>False\<close> stands for the unassigned elements.
\<close>

definition verify_pair_count :: "cfg_t \<Rightarrow> os \<Rightarrow> CONF \<Rightarrow> error + CONF" where
  "verify_pair_count cfg E conf0 =
     (let conf = conf0\<lparr>npc := cfg_get_size cfg P_pc\<rparr>
      in if npc conf = 0 then Inl FCFC_ERR_CFG
         else if list_ex (\<lambda>i. pc_invalid (pc conf ! i)) [0..<npc conf] then Inl FCFC_ERR_CFG
         else if list_ex (\<lambda>i. list_ex (\<lambda>j. c_at (pc conf ! i) 0 = c_at (pc conf ! j) 0
                                            \<and> c_at (pc conf ! i) 1 = c_at (pc conf ! j) 1)
                                  [i + 1..<npc conf]) [0..<npc conf - 1]
           then Inl FCFC_ERR_CFG
         else if \<not> alloc_ok E A_comp_pc then Inl FCFC_ERR_MEMORY
         else Inr (conf\<lparr>comp_pc := replicate (npc conf) False\<rparr>))"

subsection \<open>PAIR_COUNT_FILE\<close>

text \<open>The inner loop over the catalog labels, counting the matches of both letters.\<close>

definition label_found :: "CONF \<Rightarrow> nat \<Rightarrow> nat" where
  "label_found conf i =
     fold (\<lambda>j n. (let n1 = (if c_at (pc conf ! i) 0 = label conf ! j then n + 1 else n)
                  in if c_at (pc conf ! i) 1 = label conf ! j then n1 + 1 else n1))
          [0..<ninput conf] 0"

definition check_labels :: "CONF \<Rightarrow> nat \<Rightarrow> error + CONF" where
  "check_labels conf i =
     (if comp_pc conf ! i then
        (if label_found conf i \<noteq> 2 then Inl FCFC_ERR_CFG else Inr conf)
      else Inr conf)"

text \<open>The body of the loop over the pair identifiers when PAIR_COUNT_FILE is set.\<close>

definition pc_file_body :: "define_h \<Rightarrow> os \<Rightarrow> nat \<Rightarrow> CONF \<times> string \<Rightarrow> error + CONF \<times> string" where
  "pc_file_body D E i s =
     (case s of (conf, inp) \<Rightarrow>
        (case check_output D E (pcout conf ! i) (ovwrite conf) (FCFC_OVERWRITE_ALL D) inp of
           (None, inp') \<Rightarrow>
             bind_err (check_labels (conf\<lparr>comp_pc := (comp_pc conf)[i := True]\<rparr>) i)
                      (\<lambda>c. Inr (c, inp'))
         | (Some e, inp') \<Rightarrow>
             if e = FCFC_ERR_SAVE then
               bind_err (check_labels (conf\<lparr>comp_pc := (comp_pc conf)[i := False]\<rparr>) i)
                        (\<lambda>c. Inr (c, inp'))
             else Inl e))"

text \<open>The body of the loop when PAIR_COUNT_FILE is not set.\<close>

definition pc_nofile_body :: "nat \<Rightarrow> CONF \<times> string \<Rightarrow> error + CONF \<times> string" where
  "pc_nofile_body i s =
     (case s of (conf, inp) \<Rightarrow>
        bind_err (check_labels (conf\<lparr>comp_pc := (comp_pc conf)[i := True]\<rparr>) i)
                 (\<lambda>c. Inr (c, inp)))"

definition verify_pair_count_file ::
  "define_h \<Rightarrow> os \<Rightarrow> cfg_t \<Rightarrow> CONF \<times> string \<Rightarrow> error + CONF \<times> string" where
  "verify_pair_count_file D E cfg s =
     (case s of (conf, inp) \<Rightarrow>
        if cfg_is_set cfg P_pcout then
          (let num = cfg_get_size cfg P_pcout
           in if num = 0 then Inl FCFC_ERR_CFG
              else if num < npc conf then Inl FCFC_ERR_CFG
              else for_loop [0..<npc conf] (pc_file_body D E) (conf, inp))
        else for_loop [0..<npc conf] pc_nofile_body (conf\<lparr>pcout := []\<rparr>, inp))"

subsection \<open>CF_OUTPUT_FILE, MULTIPOLE_FILE, PROJECTED_FILE\<close>

text \<open>
  The three blocks have the same shape: when the parameter is set, the array must have
  at least \<open>n\<close> elements and every file is checked with \<^verbatim>\<open>check_output\<close> and the level
  \<^verbatim>\<open>FCFC_OVERWRITE_CFONLY\<close>, any non-zero result being returned; otherwise the array
  pointer is set to NULL.
\<close>

definition out_file_body ::
  "define_h \<Rightarrow> os \<Rightarrow> string list \<Rightarrow> int \<Rightarrow> nat \<Rightarrow> string \<Rightarrow> error + string" where
  "out_file_body D E arr ovw i inp =
     (case check_output D E (arr ! i) ovw (FCFC_OVERWRITE_CFONLY D) inp of
        (None, inp') \<Rightarrow> Inr inp'
      | (Some e, inp') \<Rightarrow> Inl e)"

definition verify_out_files ::
  "define_h \<Rightarrow> os \<Rightarrow> cfg_t \<Rightarrow> param \<Rightarrow> string list \<Rightarrow> nat \<Rightarrow> int \<Rightarrow> string
     \<Rightarrow> error + string list \<times> string" where
  "verify_out_files D E cfg par arr n ovw inp =
     (if cfg_is_set cfg par then
        (let num = cfg_get_size cfg par
         in if num = 0 then Inl FCFC_ERR_CFG
            else if num < n then Inl FCFC_ERR_CFG
            else bind_err (for_loop [0..<n] (out_file_body D E arr ovw) inp)
                          (\<lambda>inp'. Inr (arr, inp')))
      else Inr ([], inp))"

subsection \<open>MULTIPOLE\<close>

text \<open>
  The inner loop of the insertion sort,
  \<^verbatim>\<open>for (num = i; num > 0 && poles[num - 1] > tmp; num--) poles[num] = poles[num - 1];\<close>
  returning the array and the final \<^verbatim>\<open>num\<close>.
\<close>

fun ins_shift :: "int list \<Rightarrow> nat \<Rightarrow> int \<Rightarrow> int list \<times> nat" where
  "ins_shift a 0 tmp = (a, 0)"
| "ins_shift a (Suc k) tmp =
     (if a ! k > tmp then ins_shift (a[Suc k := a ! k]) k tmp else (a, Suc k))"

definition ins_step :: "nat \<Rightarrow> int list \<Rightarrow> int list" where
  "ins_step i a = (let tmp = a ! i in case ins_shift a i tmp of (a', num) \<Rightarrow> a'[num := tmp])"

definition insertion_sort :: "int list \<Rightarrow> nat \<Rightarrow> int list" where
  "insertion_sort a n = fold ins_step [1..<n] a"

text \<open>Removing the duplicates of the sorted array in place; \<^verbatim>\<open>num\<close> starts at 0.\<close>

definition dedup_step :: "nat \<Rightarrow> int list \<times> nat \<Rightarrow> int list \<times> nat" where
  "dedup_step i s =
     (case s of (a, num) \<Rightarrow> if a ! i \<noteq> a ! num then (a[Suc num := a ! i], Suc num) else (a, num))"

definition dedup :: "int list \<Rightarrow> nat \<Rightarrow> int list \<times> nat" where
  "dedup a n = fold dedup_step [1..<n] (a, 0)"

definition sort_uniq_poles :: "CONF \<Rightarrow> CONF" where
  "sort_uniq_poles conf =
     (case dedup (insertion_sort (poles conf) (npole conf)) (npole conf) of
        (a, num) \<Rightarrow> conf\<lparr>poles := a, npole := num + 1\<rparr>)"

definition verify_multipole ::
  "define_h \<Rightarrow> os \<Rightarrow> cfg_t \<Rightarrow> CONF \<times> string \<Rightarrow> error + CONF \<times> string" where
  "verify_multipole D E cfg s =
     (case s of (conf0, inp) \<Rightarrow>
        (let conf1 = conf0\<lparr>npole := cfg_get_size cfg P_poles\<rparr>
         in if npole conf1 = 0 then Inr (conf1, inp)
            else
              (let conf = (if npole conf1 > 1 then sort_uniq_poles conf1 else conf1)
               in if poles conf ! 0 < 0 \<or> poles conf ! (npole conf - 1) > FCFC_MAX_ELL D
                  then Inl FCFC_ERR_CFG
                  else bind_err
                         (verify_out_files D E cfg P_mpout (mpout conf) (ncf conf)
                            (ovwrite conf) inp)
                         (\<lambda>r. case r of (arr, inp') \<Rightarrow> Inr (conf\<lparr>mpout := arr\<rparr>, inp')))))"

subsection \<open>PROJECTED_CF\<close>

definition verify_wp ::
  "define_h \<Rightarrow> os \<Rightarrow> cfg_t \<Rightarrow> CONF \<times> string \<Rightarrow> error + CONF \<times> string" where
  "verify_wp D E cfg s =
     (case s of (conf0, inp) \<Rightarrow>
        (let conf = (if \<not> cfg_is_set cfg P_wp then conf0\<lparr>wp := DEFAULT_PROJECTED_CF D\<rparr>
                     else conf0)
         in if wp conf then
              bind_err
                (verify_out_files D E cfg P_wpout (wpout conf) (ncf conf) (ovwrite conf) inp)
                (\<lambda>r. case r of (arr, inp') \<Rightarrow> Inr (conf\<lparr>wpout := arr\<rparr>, inp'))
            else Inr (conf, inp)))"

subsection \<open>CF_ESTIMATOR\<close>

definition verify_cf ::
  "define_h \<Rightarrow> os \<Rightarrow> cfg_t \<Rightarrow> CONF \<times> string \<Rightarrow> error + CONF \<times> string" where
  "verify_cf D E cfg s =
     (case s of (conf0, inp) \<Rightarrow>
        (let conf = conf0\<lparr>ncf := cfg_get_size cfg P_cf\<rparr>
         in if ncf conf = 0 then Inr (conf, inp)
            else if list_ex (\<lambda>i. cf conf ! i = []) [0..<ncf conf] then Inl FCFC_ERR_CFG
            else bind_err
              (verify_out_files D E cfg P_cfout (cfout conf) (ncf conf) (ovwrite conf) inp)
              (\<lambda>r. case r of (arr, inp') \<Rightarrow>
                 (let conf' = conf\<lparr>cfout := arr\<rparr>
                  in if bintype conf' = FCFC_BIN_SMU D then verify_multipole D E cfg (conf', inp')
                     else if bintype conf' = FCFC_BIN_SPI D then verify_wp D E cfg (conf', inp')
                     else Inr (conf', inp')))))"

subsection \<open>OUTPUT_FORMAT, VERBOSE\<close>

definition verify_ofmt :: "define_h \<Rightarrow> cfg_t \<Rightarrow> CONF \<Rightarrow> error + CONF" where
  "verify_ofmt D cfg conf0 =
     (let conf = (if \<not> cfg_is_set cfg P_ofmt then conf0\<lparr>ofmt := DEFAULT_OUTPUT_FORMAT D\<rparr>
                  else conf0)
      in if ofmt conf = FCFC_OFMT_BIN D \<or> ofmt conf = FCFC_OFMT_ASCII D
         then Inr conf else Inl FCFC_ERR_CFG)"

definition verify_verbose :: "define_h \<Rightarrow> cfg_t \<Rightarrow> CONF \<Rightarrow> CONF" where
  "verify_verbose D cfg conf =
     (if \<not> cfg_is_set cfg P_verbose then conf\<lparr>verbose := DEFAULT_VERBOSE D\<rparr> else conf)"

subsection \<open>The whole function\<close>

text \<open>
  The sections up to and including PAIR_COUNT do not read the standard input; from
  PAIR_COUNT_FILE on, \<^verbatim>\<open>check_output\<close> may ask on it, so the input is threaded along.
\<close>

definition verify_head :: "define_h \<Rightarrow> os \<Rightarrow> cfg_t \<Rightarrow> CONF \<Rightarrow> error + CONF" where
  "verify_head D E cfg conf =
     bind_err (verify_label cfg E conf) (\<lambda>c1.
     bind_err (verify_weight E c1) (\<lambda>c2.
     bind_err (verify_box cfg E c2) (\<lambda>c3.
     bind_err (verify_dstruct D cfg (verify_overwrite D cfg c3)) (\<lambda>c4.
     bind_err (verify_bintype D cfg c4) (\<lambda>c5.
     verify_pair_count cfg E c5)))))"

definition conf_verify ::
  "define_h \<Rightarrow> os \<Rightarrow> cfg_t \<Rightarrow> CONF \<Rightarrow> string \<Rightarrow> error + CONF \<times> string" where
  "conf_verify D E cfg conf inp =
     bind_err (verify_head D E cfg conf) (\<lambda>c6.
     bind_err (verify_pair_count_file D E cfg (c6, inp)) (\<lambda>s7.
     bind_err (verify_cf D E cfg s7) (\<lambda>s8.
     case s8 of (c8, inp8) \<Rightarrow>
       bind_err (verify_ofmt D cfg c8) (\<lambda>c9.
       Inr (verify_verbose D cfg c9, inp8)))))"

section \<open>\<^verbatim>\<open>load_conf\<close>\<close>

text \<open>
  \<^verbatim>\<open>conf_init\<close>: the structure comes from \<^verbatim>\<open>calloc\<close>, every pointer is NULL and every number
  zero.
\<close>

definition conf_init :: CONF where
  "conf_init = \<lparr>fconf = [], label = [], ninput = 0, has_wt = [], bsize = [], ovwrite = 0,
     dstruct = 0, bintype = 0, pc = [], npc = 0, comp_pc = [], pcout = [], cf = [], ncf = 0,
     cfout = [], poles = [], npole = 0, mpout = [], wp = False, wpout = [], ofmt = 0,
     verbose = False\<rparr>"

text \<open>
  What \<^verbatim>\<open>load_conf\<close> does besides returning: \<^verbatim>\<open>free(conf->fconf)\<close>, \<^verbatim>\<open>conf_destroy(conf)\<close>
  (which frees every array of the structure and the structure itself),
  \<^verbatim>\<open>cfg_destroy(cfg)\<close> and \<^verbatim>\<open>conf_print\<close>, in the order of the calls.
\<close>

datatype event = Free_fconf | Conf_destroy | Cfg_destroy | Conf_print

text \<open>
  \<^verbatim>\<open>conf_read\<close> consists of calls to libcfg, which is not among the files modelled here: its
  outcome \<open>rd cf\<close> on the initialised structure \<open>cf\<close> is a parameter, \<open>None\<close> for a NULL
  handle and otherwise the handle together with the structure as the parser filled it. The
  result of \<^verbatim>\<open>load_conf\<close> is the pointer returned (\<open>None\<close> for NULL) and the list of events.
\<close>

definition load_conf ::
  "define_h \<Rightarrow> os \<Rightarrow> (CONF \<Rightarrow> (cfg_t \<times> CONF) option) \<Rightarrow> string \<Rightarrow> CONF option \<times> event list" where
  "load_conf D E rd inp =
     (if \<not> alloc_ok E A_conf then (None, [])
      else
        (case rd conf_init of
           None \<Rightarrow> (None, [Conf_destroy])
         | Some (cfg, conf) \<Rightarrow>
             (case conf_verify D E cfg conf inp of
                Inl e \<Rightarrow>
                  (None, (if cfg_is_set cfg P_fconf then [Free_fconf] else [])
                         @ [Conf_destroy, Cfg_destroy])
              | Inr (conf', inp') \<Rightarrow>
                  (Some conf', (if verbose conf' then [Conf_print] else [])
                               @ (if cfg_is_set cfg P_fconf then [Free_fconf] else [])
                               @ [Cfg_destroy]))))"

section \<open>The separation bins handed to \<^verbatim>\<open>compute_cf\<close>\<close>

text \<open>
  Modelled from the spec: the invariant of a BinSpec. The files modelled here hold no check of
  the bin edges: the section SEP_BIN_FILE of \<open>conf_verify\<close> is empty, and of
  \<^verbatim>\<open>compute_cf\<close>, which receives the edges \<^verbatim>\<open>sbins\<close>, only the declaration in \<^verbatim>\<open>fcfc.h\<close> is
  there. The spec says: edges strictly increasing, nbins \<open>\<ge>\<close> 1 (the number of bins is the
  number of edges minus one), all edges finite and non-negative for distance axes.
\<close>

definition bin_invariant :: "double list \<Rightarrow> bool" where
  "bin_invariant edges =
     ((\<forall>i. Suc i < length edges \<longrightarrow> dlt (edges ! i) (edges ! Suc i))
      \<and> 1 \<le> length edges - 1
      \<and> (\<forall>e \<in> set edges. isfinite e \<and> \<not> dlt e (Finite 0)))"

text \<open>
  Modelled from the spec: the check of the edges when a BinSpec is built, as a loop over
  consecutive edges.
\<close>

fun edges_increasing :: "double list \<Rightarrow> bool" where
  "edges_increasing [] = True"
| "edges_increasing [x] = True"
| "edges_increasing (x # y # r) = (dlt x y \<and> edges_increasing (y # r))"

text \<open>
  Modelled from the spec: building a BinSpec from the edges fails with a ConfigError
  (invalid bin spec) when the invariant does not hold.
\<close>

definition make_binspec :: "double list \<Rightarrow> error + double list" where
  "make_binspec edges =
     (if 2 \<le> length edges \<and> list_all (\<lambda>e. isfinite e \<and> \<not> dlt e (Finite 0)) edges
         \<and> edges_increasing edges
      then Inr edges else Inl FCFC_ERR_CFG)"

text \<open>
  Modelled from the spec: the body of \<^verbatim>\<open>compute_cf\<close>, of which the files modelled here hold the
  declaration only. A construction-time error aborts the invocation before any counting
  starts: the pair counting \<open>count\<close> runs on a BinSpec that was built.
\<close>

definition compute_cf :: "(double list \<Rightarrow> 'cf) \<Rightarrow> double list \<Rightarrow> error + 'cf" where
  "compute_cf count sbins =
     (case make_binspec sbins of Inl e \<Rightarrow> Inl e | Inr bins \<Rightarrow> Inr (count bins))"

section \<open>Notions used in the statements\<close>

definition upper :: "char \<Rightarrow> bool" where
  "upper c = ((of_char (CHR ''A'') :: nat) \<le> of_char c \<and> (of_char c :: nat) \<le> of_char (CHR ''Z''))"

definition two_upper :: "string \<Rightarrow> bool" where
  "two_upper s = (length s = 2 \<and> (\<forall>c \<in> set s. upper c))"

text \<open>What a successful run of the sections up to PAIR_COUNT has established.\<close>

definition head_result :: "define_h \<Rightarrow> cfg_t \<Rightarrow> CONF \<Rightarrow> CONF" where
  "head_result D cfg conf =
     conf\<lparr>ninput := cfg_get_size cfg P_label,
          label := (if cfg_get_size cfg P_label = 0 then [] else label conf),
          has_wt := replicate (cfg_get_size cfg P_label) True,
          bsize := (if cfg_get_size cfg P_bsize = 1 then replicate 3 (bsize conf ! 0) else bsize conf),
          ovwrite := (if cfg_is_set cfg P_ovwrite then ovwrite conf else DEFAULT_OVERWRITE D),
          dstruct := (if cfg_is_set cfg P_dstruct then dstruct conf else DEFAULT_STRUCT D),
          bintype := (if cfg_is_set cfg P_bintype then bintype conf else DEFAULT_BINNING D),
          npc := cfg_get_size cfg P_pc,
          comp_pc := replicate (cfg_get_size cfg P_pc) False\<rparr>"

text \<open>The state after \<open>k\<close> rounds of the loop over the pair identifiers.\<close>

definition pcf_inv :: "CONF \<Rightarrow> bool \<Rightarrow> nat \<Rightarrow> CONF \<times> string \<Rightarrow> bool" where
  "pcf_inv c0 all k s =
     (\<exists>l. fst s = c0\<lparr>comp_pc := l\<rparr> \<and> length l = length (comp_pc c0)
        \<and> (\<forall>i<k. i < length l \<longrightarrow> (all \<longrightarrow> l ! i) \<and> (l ! i \<longrightarrow> label_found c0 i = 2)))"

definition poles_result :: "cfg_t \<Rightarrow> CONF \<Rightarrow> CONF" where
  "poles_result cfg c =
     (if cfg_get_size cfg P_poles > 1 then sort_uniq_poles (c\<lparr>npole := cfg_get_size cfg P_poles\<rparr>)
      else c\<lparr>npole := cfg_get_size cfg P_poles\<rparr>)"

text \<open>The part of the configuration that the sections from CF_ESTIMATOR on leave alone.\<close>

definition same_core :: "CONF \<Rightarrow> CONF \<Rightarrow> bool" where
  "same_core c c' =
     (label c' = label c \<and> ninput c' = ninput c \<and> pc c' = pc c \<and> npc c' = npc c
      \<and> comp_pc c' = comp_pc c \<and> bsize c' = bsize c \<and> bintype c' = bintype c
      \<and> ovwrite c' = ovwrite c \<and> pcout c' = pcout c)"

section \<open>Example configurations\<close>

text \<open>
  Concrete inputs on which the theorems below are exercised. The values of the macros are
  examples; no theorem depends on them.
\<close>

definition ex_defs :: define_h where
  "ex_defs = \<lparr>FCFC_MAX_ELL = 6, FCFC_OVERWRITE_NONE = 0, FCFC_OVERWRITE_CFONLY = 1,
     FCFC_OVERWRITE_ALL = 2, DEFAULT_OVERWRITE = 0, FCFC_STRUCT_KDTREE = 0,
     FCFC_STRUCT_BALLTREE = 1, DEFAULT_STRUCT = 0, FCFC_BIN_ISO = 0, FCFC_BIN_SMU = 1,
     FCFC_BIN_SPI = 2, DEFAULT_BINNING = 0, DEFAULT_PROJECTED_CF = False, FCFC_OFMT_BIN = 0,
     FCFC_OFMT_ASCII = 1, DEFAULT_OUTPUT_FORMAT = 0, DEFAULT_VERBOSE = False,
     FCFC_PATH_SEP = CHR ''/''\<rparr>"

definition ex_os :: os where
  "ex_os = \<lparr>access = (\<lambda>f m. f = ''DD.dat'' \<and> (m = F_OK \<or> m = R_OK)), alloc_ok = (\<lambda>a. True)\<rparr>"

definition ex_sizes :: "param \<Rightarrow> nat" where
  "ex_sizes p = (if p = P_label then 2 else if p = P_bsize then 1 else if p = P_pc then 3
        else if p = P_cf then 1 else if p = P_poles then 4 else 0)"

definition ex_cfg :: cfg_t where
  "ex_cfg = \<lparr>cfg_is_set = (\<lambda>p. ex_sizes p \<noteq> 0 \<or> p = P_bintype \<or> p = P_ovwrite),
              cfg_get_size = ex_sizes\<rparr>"

definition ex_conf :: CONF where
  "ex_conf = \<lparr>fconf = ''fcfc.conf'', label = ''DR'', ninput = 0, has_wt = [], bsize = [Finite 1000],
     ovwrite = 1, dstruct = 0, bintype = 1, pc = [''DD'', ''DR'', ''RR''], npc = 0, comp_pc = [],
     pcout = [], cf = [''DD/RR''], ncf = 0, cfout = [], poles = [2, 0, 4, 2], npole = 0,
     mpout = [], wp = False, wpout = [], ofmt = 0, verbose = False\<rparr>"

definition ex_result :: CONF where
  "ex_result = \<lparr>fconf = ''fcfc.conf'', label = ''DR'', ninput = 2,
         has_wt = [True, True],
         bsize = [Finite 1000, Finite 1000, Finite 1000], ovwrite = 1,
         dstruct = 0, bintype = 1, pc = [''DD'', ''DR'', ''RR''], npc = 3,
         comp_pc = [True, True, True], pcout = [], cf = [''DD/RR''],
         ncf = 1, cfout = [], poles = [0, 2, 4, 4], npole = 3, mpout = [],
         wp = False, wpout = [], ofmt = 0, verbose = False\<rparr>"

definition ex_cfg_nobox :: cfg_t where
  "ex_cfg_nobox = ex_cfg\<lparr>cfg_get_size := ex_sizes(P_bsize := 0)\<rparr>"

definition ex_conf_dup :: CONF where
  "ex_conf_dup = ex_conf\<lparr>pc := [''DD'', ''DR'', ''DD'']\<rparr>"

definition ex_conf_badpc :: CONF where
  "ex_conf_badpc = ex_conf\<lparr>pc := [''DD'', ''DRR'', ''dr'']\<rparr>"


definition ex_sizes_read :: "param \<Rightarrow> nat" where
  "ex_sizes_read p = (if p = P_bsize then 1 else if p = P_pc then 1 else if p = P_pcout then 1
                      else 0)"

definition ex_cfg_read :: cfg_t where
  "ex_cfg_read = \<lparr>cfg_is_set = (\<lambda>p. ex_sizes_read p \<noteq> 0 \<or> p = P_ovwrite),
                   cfg_get_size = ex_sizes_read\<rparr>"

definition ex_conf_read :: CONF where
  "ex_conf_read = ex_conf\<lparr>label := [], pc := [''XY''], pcout := [''DD.dat''], cf := [],
                           poles := []\<rparr>"

definition ex_cfg_read_lab :: cfg_t where
  "ex_cfg_read_lab = ex_cfg_read\<lparr>cfg_get_size := ex_sizes_read(P_label := 2)\<rparr>"

definition ex_result_read :: CONF where
  "ex_result_read = \<lparr>fconf = ''fcfc.conf'', label = [], ninput = 0, has_wt = [],
         bsize = [Finite 1000, Finite 1000, Finite 1000], ovwrite = 1,
         dstruct = 0, bintype = 0, pc = [''XY''], npc = 1,
         comp_pc = [False], pcout = [''DD.dat''], cf = [], ncf = 0,
         cfout = [], poles = [], npole = 0, mpout = [], wp = False,
         wpout = [], ofmt = 0, verbose = False\<rparr>"

definition ex_result_read_lab :: CONF where
  "ex_result_read_lab = ex_result_read\<lparr>label := ''DR'', ninput := 2, has_wt := [True, True]\<rparr>"

text \<open>
  The pair-count file of an identifier is read: it exists, the overwrite level lies
  strictly between \<^verbatim>\<open>FCFC_OVERWRITE_NONE\<close> and \<^verbatim>\<open>FCFC_OVERWRITE_ALL\<close>, and it is readable.
\<close>

definition pc_read_cond :: "define_h \<Rightarrow> os \<Rightarrow> string \<Rightarrow> int \<Rightarrow> bool" where
  "pc_read_cond D E f ovw =
     (access E f F_OK \<and> FCFC_OVERWRITE_NONE D < ovw \<and> ovw < FCFC_OVERWRITE_ALL D
      \<and> access E f R_OK)"

text \<open>
  The run stops with a file error: the file exists and must not be overwritten, or is to
  be overwritten and is not writable, or is to be read and is not readable; or it does not
  exist and its directory cannot be entered.
\<close>

definition pc_abort_cond :: "define_h \<Rightarrow> os \<Rightarrow> string \<Rightarrow> int \<Rightarrow> bool" where
  "pc_abort_cond D E f ovw =
     ((access E f F_OK \<and>
        (ovw \<le> FCFC_OVERWRITE_NONE D
         \<or> (FCFC_OVERWRITE_ALL D \<le> ovw \<and> \<not> access E f W_OK)
         \<or> (ovw < FCFC_OVERWRITE_ALL D \<and> \<not> access E f R_OK)))
      \<or> (\<not> access E f F_OK \<and>
           (case path_dir (FCFC_PATH_SEP D) f of None \<Rightarrow> False
            | Some dir \<Rightarrow> \<not> access E dir X_OK)))"

text \<open>
  Inserting \<open>t\<close> into a list that holds a sorted array prefix in reverse, its last element
  first: the functional counterpart of one round of the insertion sort.
\<close>

fun insr :: "int \<Rightarrow> int list \<Rightarrow> int list" where
  "insr t [] = [t]"
| "insr t (y # ys) = (if y > t then y # insr t ys else t # y # ys)"

definition ex_conf_badpole :: CONF where
  "ex_conf_badpole = ex_conf\<lparr>poles := [2, 7, 0, 2]\<rparr>"

definition ex_read :: "CONF \<Rightarrow> (cfg_t \<times> CONF) option" where
  "ex_read c = Some (ex_cfg, ex_conf)"

definition ex_read_nobox :: "CONF \<Rightarrow> (cfg_t \<times> CONF) option" where
  "ex_read_nobox c = Some (ex_cfg_nobox, ex_conf\<lparr>bsize := []\<rparr>)"

definition ex_cfg_cfout :: cfg_t where
  "ex_cfg_cfout = \<lparr>cfg_is_set = (\<lambda>p. ex_sizes p \<noteq> 0 \<or> p = P_bintype \<or> p = P_ovwrite \<or> p = P_cfout),
                    cfg_get_size = ex_sizes(P_cfout := 1)\<rparr>"

definition ex_conf_cfout :: CONF where
  "ex_conf_cfout = ex_conf_badpole\<lparr>cfout := [''DD.dat''], ovwrite := 0\<rparr>"

section \<open>Properties of the sections of \<^verbatim>\<open>conf_verify\<close>\<close>

lemma bind_err_Inr: "bind_err m f = Inr y \<longleftrightarrow> (\<exists>x. m = Inr x \<and> f x = Inr y)"
  by (cases m) (simp_all add: bind_err_def)

lemma bind_err_Inl: "bind_err m f = Inl e \<longleftrightarrow> (m = Inl e \<or> (\<exists>x. m = Inr x \<and> f x = Inl e))"
  by (cases m) (simp_all add: bind_err_def)

lemma list_ex_upt: "list_ex P [a..<b] \<longleftrightarrow> (\<exists>i. a \<le> i \<and> i < b \<and> P i)"
  by (auto simp: list_ex_iff)

lemma not_upper_iff: "not_upper c \<longleftrightarrow> \<not> upper c"
  by (auto simp: not_upper_def upper_def)

lemma not_upper_NUL: "not_upper (CHR 0x00)"
  by (simp add: not_upper_def)

lemma pc_invalid_iff:
  assumes "CHR 0x00 \<notin> set s"
  shows "pc_invalid s \<longleftrightarrow> \<not> two_upper s"
proof (cases s)
  case Nil
  then show ?thesis by (simp add: pc_invalid_def c_at_def two_upper_def not_upper_NUL)
next
  case (Cons a r)
  note s1 = this
  show ?thesis
  proof (cases r)
    case Nil
    with s1 show ?thesis by (simp add: pc_invalid_def c_at_def two_upper_def not_upper_NUL)
  next
    case (Cons b r2)
    note s2 = this
    show ?thesis
    proof (cases r2)
      case Nil
      with s1 s2 show ?thesis
        by (auto simp: pc_invalid_def c_at_def two_upper_def not_upper_iff)
    next
      case (Cons c r3)
      with s1 s2 assms show ?thesis
        by (auto simp: pc_invalid_def c_at_def two_upper_def)
    qed
  qed
qed

lemma verify_label_Inr:
  assumes "verify_label cfg E conf = Inr c"
  shows "c = conf\<lparr>ninput := cfg_get_size cfg P_label,
                   label := (if cfg_get_size cfg P_label = 0 then [] else label conf)\<rparr>"
    and "cfg_get_size cfg P_label \<noteq> 0 \<Longrightarrow> i < cfg_get_size cfg P_label \<Longrightarrow> \<not> not_upper (label conf ! i)"
    and "cfg_get_size cfg P_label \<noteq> 0 \<Longrightarrow> i < j \<Longrightarrow> j < cfg_get_size cfg P_label \<Longrightarrow> label conf ! i \<noteq> label conf ! j"
  using assms
  by (auto simp: verify_label_def Let_def default_labels_def list_ex_upt split: if_splits)

lemma verify_label_Inl:
  assumes "verify_label cfg E conf = Inl e"
  shows "e = FCFC_ERR_CFG \<or> (e = FCFC_ERR_MEMORY \<and> \<not> alloc_ok E A_label)"
  using assms by (auto simp: verify_label_def Let_def split: if_splits)

lemma verify_weight_Inr:
  "verify_weight E conf = Inr c \<Longrightarrow> c = conf\<lparr>has_wt := replicate (ninput conf) True\<rparr>"
  by (auto simp: verify_weight_def split: if_splits)

lemma verify_weight_Inl:
  "verify_weight E conf = Inl e \<Longrightarrow> e = FCFC_ERR_MEMORY \<and> \<not> alloc_ok E A_has_wt"
  by (auto simp: verify_weight_def split: if_splits)

lemma verify_box_Inr:
  assumes "verify_box cfg E conf = Inr c"
  shows "c = conf\<lparr>bsize := (if cfg_get_size cfg P_bsize = 1 then replicate 3 (bsize conf ! 0) else bsize conf)\<rparr>"
    and "cfg_get_size cfg P_bsize \<noteq> 0" and "cfg_get_size cfg P_bsize \<noteq> 2"
    and "i < 3 \<Longrightarrow> isfinite (bsize c ! i) \<and> \<not> dle0 (bsize c ! i)"
  using assms
  by (auto simp: verify_box_def Let_def bind_err_Inr list_ex_upt numeral_3_eq_3 less_Suc_eq
      split: if_splits)

lemma verify_box_Inl:
  assumes "verify_box cfg E conf = Inl e"
  shows "e = FCFC_ERR_CFG \<or> (e = FCFC_ERR_MEMORY \<and> \<not> alloc_ok E A_bsize)"
  using assms by (auto simp: verify_box_def Let_def bind_err_Inl split: if_splits)

lemma verify_box_unset: "cfg_get_size cfg P_bsize = 0 \<Longrightarrow> verify_box cfg E conf = Inl FCFC_ERR_CFG"
  by (simp add: verify_box_def)

lemma verify_dstruct_Inr:
  "verify_dstruct D cfg conf = Inr c \<Longrightarrow>
     c = conf\<lparr>dstruct := (if cfg_is_set cfg P_dstruct then dstruct conf else DEFAULT_STRUCT D)\<rparr>"
  by (auto simp: verify_dstruct_def Let_def split: if_splits)

lemma verify_dstruct_Inl: "verify_dstruct D cfg conf = Inl e \<Longrightarrow> e = FCFC_ERR_CFG"
  by (auto simp: verify_dstruct_def Let_def split: if_splits)

lemma verify_bintype_Inr:
  "verify_bintype D cfg conf = Inr c \<Longrightarrow>
     c = conf\<lparr>bintype := (if cfg_is_set cfg P_bintype then bintype conf else DEFAULT_BINNING D)\<rparr>"
  by (auto simp: verify_bintype_def Let_def split: if_splits)

lemma verify_bintype_Inl: "verify_bintype D cfg conf = Inl e \<Longrightarrow> e = FCFC_ERR_CFG"
  by (auto simp: verify_bintype_def Let_def split: if_splits)

lemma verify_overwrite_eq:
  "verify_overwrite D cfg conf =
     conf\<lparr>ovwrite := (if cfg_is_set cfg P_ovwrite then ovwrite conf else DEFAULT_OVERWRITE D)\<rparr>"
  by (simp add: verify_overwrite_def)

lemma verify_pair_count_Inr:
  assumes "verify_pair_count cfg E conf = Inr c"
  shows "c = conf\<lparr>npc := cfg_get_size cfg P_pc, comp_pc := replicate (cfg_get_size cfg P_pc) False\<rparr>"
    and "cfg_get_size cfg P_pc \<noteq> 0"
    and "i < cfg_get_size cfg P_pc \<Longrightarrow> \<not> pc_invalid (pc conf ! i)"
    and "i < j \<Longrightarrow> j < cfg_get_size cfg P_pc \<Longrightarrow>
           \<not> (c_at (pc conf ! i) 0 = c_at (pc conf ! j) 0 \<and> c_at (pc conf ! i) 1 = c_at (pc conf ! j) 1)"
  using assms
  by (auto simp: verify_pair_count_def Let_def list_ex_upt split: if_splits)

lemma verify_pair_count_Inl:
  assumes "verify_pair_count cfg E conf = Inl e"
  shows "e = FCFC_ERR_CFG \<or> (e = FCFC_ERR_MEMORY \<and> \<not> alloc_ok E A_comp_pc)"
  using assms by (auto simp: verify_pair_count_def Let_def split: if_splits)

lemma verify_head_Inr:
  assumes "verify_head D E cfg conf = Inr c"
  shows "c = head_result D cfg conf"
    and "\<exists>c1. verify_label cfg E conf = Inr c1"
    and "\<exists>c2. verify_box cfg E c2 = Inr (c\<lparr>ovwrite := ovwrite c2, dstruct := dstruct c2, bintype := bintype c2, npc := npc c2, comp_pc := comp_pc c2\<rparr>) \<and> bsize c2 = bsize conf"
    and "\<exists>c5. verify_pair_count cfg E c5 = Inr c \<and> pc c5 = pc conf"
proof -
  from assms obtain c1 c2 c3 c4 c5 where
    s1: "verify_label cfg E conf = Inr c1" and
    s2: "verify_weight E c1 = Inr c2" and
    s3: "verify_box cfg E c2 = Inr c3" and
    s4: "verify_dstruct D cfg (verify_overwrite D cfg c3) = Inr c4" and
    s5: "verify_bintype D cfg c4 = Inr c5" and
    s6: "verify_pair_count cfg E c5 = Inr c"
    unfolding verify_head_def bind_err_Inr by blast
  note r = verify_label_Inr(1)[OF s1] verify_weight_Inr[OF s2] verify_box_Inr(1)[OF s3]
    verify_dstruct_Inr[OF s4] verify_bintype_Inr[OF s5] verify_pair_count_Inr(1)[OF s6]
    verify_overwrite_eq[of D cfg c3]
  show "c = head_result D cfg conf"
    unfolding head_result_def using r by simp
  show "\<exists>c1. verify_label cfg E conf = Inr c1" using s1 by blast
  show "\<exists>c5. verify_pair_count cfg E c5 = Inr c \<and> pc c5 = pc conf"
    using s6 r by (intro exI[of _ c5]) simp
  show "\<exists>c2. verify_box cfg E c2 = Inr (c\<lparr>ovwrite := ovwrite c2, dstruct := dstruct c2, bintype := bintype c2, npc := npc c2, comp_pc := comp_pc c2\<rparr>) \<and> bsize c2 = bsize conf"
    using s3 r by (intro exI[of _ c2]) simp
qed

lemma verify_head_Inl:
  assumes "verify_head D E cfg conf = Inl e"
  shows "e = FCFC_ERR_CFG \<or> (e = FCFC_ERR_MEMORY \<and> (\<exists>a. \<not> alloc_ok E a))"
  using assms unfolding verify_head_def bind_err_Inl
  by (blast dest: verify_label_Inl verify_weight_Inl verify_box_Inl verify_dstruct_Inl
      verify_bintype_Inl verify_pair_count_Inl)


lemma for_loop_append:
  "for_loop (xs @ ys) body s = bind_err (for_loop xs body s) (for_loop ys body)"
  by (induction xs arbitrary: s) (auto simp: bind_err_def split: sum.splits)

lemma for_loop_snoc:
  "for_loop (xs @ [x]) body s = bind_err (for_loop xs body s) (body x)"
  by (induction xs arbitrary: s) (auto simp: bind_err_def split: sum.splits)

lemma for_loop_upt_inv:
  assumes "for_loop [0..<n] body s = Inr s'"
    and "P 0 s"
    and "\<And>i t t'. i < n \<Longrightarrow> P i t \<Longrightarrow> body i t = Inr t' \<Longrightarrow> P (Suc i) t'"
  shows "P n s'"
  using assms
proof (induction n arbitrary: s')
  case 0
  then show ?case by simp
next
  case (Suc n)
  have "for_loop ([0..<n] @ [n]) body s = Inr s'" using Suc.prems(1) by simp
  then obtain t where t: "for_loop [0..<n] body s = Inr t" and b: "body n t = Inr s'"
    unfolding for_loop_snoc bind_err_Inr by blast
  have "P n t"
    by (rule Suc.IH[OF t Suc.prems(2)]) (use Suc.prems(3) in auto)
  then show ?case using Suc.prems(3)[of n t s'] b by simp
qed

lemma check_labels_Inr:
  "check_labels conf i = Inr c \<Longrightarrow> c = conf \<and> (comp_pc conf ! i \<longrightarrow> label_found conf i = 2)"
  by (auto simp: check_labels_def split: if_splits)

lemma check_labels_Inl: "check_labels conf i = Inl e \<Longrightarrow> e = FCFC_ERR_CFG"
  by (auto simp: check_labels_def split: if_splits)

lemma label_found_cong:
  "pc c = pc conf \<Longrightarrow> label c = label conf \<Longrightarrow> ninput c = ninput conf \<Longrightarrow>
   label_found c i = label_found conf i"
  by (simp add: label_found_def)

lemma check_labels_upd_Inr:
  assumes "check_labels (conf\<lparr>comp_pc := l\<rparr>) i = Inr c"
  shows "c = conf\<lparr>comp_pc := l\<rparr> \<and> (comp_pc c ! i \<longrightarrow> label_found conf i = 2)"
proof -
  have "label_found (conf\<lparr>comp_pc := l\<rparr>) i = label_found conf i"
    by (simp add: label_found_def)
  with check_labels_Inr[OF assms] show ?thesis by simp
qed

lemma pc_file_body_Inr:
  assumes "pc_file_body D E i (conf, inp) = Inr (c, inp')"
  shows "\<exists>b. c = conf\<lparr>comp_pc := (comp_pc conf)[i := b]\<rparr>
           \<and> check_output D E (pcout conf ! i) (ovwrite conf) (FCFC_OVERWRITE_ALL D) inp
               = (if b then None else Some FCFC_ERR_SAVE, inp')
           \<and> (comp_pc c ! i \<longrightarrow> label_found conf i = 2)"
proof -
  obtain r inp1 where co:
    "check_output D E (pcout conf ! i) (ovwrite conf) (FCFC_OVERWRITE_ALL D) inp = (r, inp1)"
    by (cases "check_output D E (pcout conf ! i) (ovwrite conf) (FCFC_OVERWRITE_ALL D) inp")
  show ?thesis
  proof (cases r)
    case None
    with assms co have
      "bind_err (check_labels (conf\<lparr>comp_pc := (comp_pc conf)[i := True]\<rparr>) i)
         (\<lambda>c. Inr (c, inp1)) = Inr (c, inp')"
      by (simp add: pc_file_body_def)
    then have "check_labels (conf\<lparr>comp_pc := (comp_pc conf)[i := True]\<rparr>) i = Inr c"
      and "inp' = inp1"
      by (auto simp: bind_err_Inr)
    with check_labels_upd_Inr[where conf = conf and i = i and c = c] co None show ?thesis
      by (intro exI[of _ True]) simp
  next
    case (Some e)
    with assms co have e: "e = FCFC_ERR_SAVE"
      by (auto simp: pc_file_body_def split: if_splits)
    with assms co Some have
      "bind_err (check_labels (conf\<lparr>comp_pc := (comp_pc conf)[i := False]\<rparr>) i)
         (\<lambda>c. Inr (c, inp1)) = Inr (c, inp')"
      by (simp add: pc_file_body_def)
    then have "check_labels (conf\<lparr>comp_pc := (comp_pc conf)[i := False]\<rparr>) i = Inr c"
      and "inp' = inp1"
      by (auto simp: bind_err_Inr)
    with check_labels_upd_Inr[where conf = conf and i = i and c = c] co Some e show ?thesis
      by (intro exI[of _ False]) simp
  qed
qed

lemma pc_nofile_body_Inr:
  assumes "pc_nofile_body i (conf, inp) = Inr (c, inp')"
  shows "c = conf\<lparr>comp_pc := (comp_pc conf)[i := True]\<rparr> \<and> inp' = inp
           \<and> (comp_pc c ! i \<longrightarrow> label_found conf i = 2)"
proof -
  from assms have "check_labels (conf\<lparr>comp_pc := (comp_pc conf)[i := True]\<rparr>) i = Inr c"
    and "inp' = inp"
    by (auto simp: pc_nofile_body_def bind_err_Inr)
  with check_labels_upd_Inr[where conf = conf and i = i and c = c] show ?thesis by simp
qed

lemma pc_nofile_body_Inl: "pc_nofile_body i s = Inl e \<Longrightarrow> e = FCFC_ERR_CFG"
  by (auto simp: pc_nofile_body_def bind_err_Inl split: prod.splits dest: check_labels_Inl)

lemma for_loop_Inl:
  assumes "for_loop js body s = Inl e" and "\<And>i t. body i t = Inl e \<Longrightarrow> Q"
  shows Q
  using assms
  by (induction js arbitrary: s) (auto split: sum.splits)

lemma pcf_inv_step:
  assumes "pcf_inv c0 all i t"
    and "fst t' = (fst t)\<lparr>comp_pc := (comp_pc (fst t))[i := b]\<rparr>"
    and "comp_pc (fst t') ! i \<longrightarrow> label_found (fst t) i = 2"
    and "all \<longrightarrow> b"
  shows "pcf_inv c0 all (Suc i) t'"
proof -
  from assms(1) obtain l where c: "fst t = c0\<lparr>comp_pc := l\<rparr>"
    and len: "length l = length (comp_pc c0)"
    and old: "\<forall>j<i. j < length l \<longrightarrow> (all \<longrightarrow> l ! j) \<and> (l ! j \<longrightarrow> label_found c0 j = 2)"
    unfolding pcf_inv_def by blast
  have lfeq: "label_found (fst t) i = label_found c0 i"
    by (rule label_found_cong) (simp_all add: c)
  have 1: "fst t' = c0\<lparr>comp_pc := l[i := b]\<rparr>" using assms(2) c by simp
  have 3: "\<forall>j<Suc i. j < length (l[i := b]) \<longrightarrow>
             (all \<longrightarrow> l[i := b] ! j) \<and> (l[i := b] ! j \<longrightarrow> label_found c0 j = 2)"
  proof (intro allI impI)
    fix j assume j: "j < Suc i" "j < length (l[i := b])"
    show "(all \<longrightarrow> l[i := b] ! j) \<and> (l[i := b] ! j \<longrightarrow> label_found c0 j = 2)"
    proof (cases "j = i")
      case True
      with assms(3,4) j lfeq 1 show ?thesis by simp
    next
      case False
      with j have "j < i" by simp
      with False old j show ?thesis by simp
    qed
  qed
  show ?thesis unfolding pcf_inv_def
    by (rule exI[of _ "l[i := b]"]) (use 1 3 len in simp)
qed

lemma pcf_inv_file_step:
  assumes "pcf_inv c0 False i t" and "pc_file_body D E i t = Inr t'"
  shows "pcf_inv c0 False (Suc i) t'"
proof -
  obtain c inp c' inp' where t: "t = (c, inp)" and t': "t' = (c', inp')"
    by (cases t, cases t') auto
  from pc_file_body_Inr[OF assms(2)[unfolded t t']] obtain b where
    c': "c' = c\<lparr>comp_pc := (comp_pc c)[i := b]\<rparr>" and
    lf: "comp_pc c' ! i \<longrightarrow> label_found c i = 2" by blast
  show ?thesis
    by (rule pcf_inv_step[OF assms(1), where b = b]) (use c' lf t t' in simp_all)
qed

lemma pcf_inv_nofile_step:
  assumes "pcf_inv c0 True i t" and "pc_nofile_body i t = Inr t'"
  shows "pcf_inv c0 True (Suc i) t'"
proof -
  obtain c inp c' inp' where t: "t = (c, inp)" and t': "t' = (c', inp')"
    by (cases t, cases t') auto
  from pc_nofile_body_Inr[OF assms(2)[unfolded t t']] have
    c': "c' = c\<lparr>comp_pc := (comp_pc c)[i := True]\<rparr>" and
    lf: "comp_pc c' ! i \<longrightarrow> label_found c i = 2" by blast+
  show ?thesis
    by (rule pcf_inv_step[OF assms(1), where b = True]) (use c' lf t t' in simp_all)
qed

lemma pcf_inv_init: "pcf_inv c0 all 0 (c0, inp)"
  unfolding pcf_inv_def by (rule exI[of _ "comp_pc c0"]) simp

lemma pcf_inv_init_pcout: "pcf_inv (c0\<lparr>pcout := []\<rparr>) all 0 (c0\<lparr>pcout := []\<rparr>, inp)"
  by (rule pcf_inv_init)

lemma verify_pair_count_file_Inr:
  assumes "verify_pair_count_file D E cfg (c6, inp) = Inr (c7, inp7)"
  shows "\<exists>l. c7 = c6\<lparr>comp_pc := l, pcout := (if cfg_is_set cfg P_pcout then pcout c6 else [])\<rparr>
           \<and> length l = length (comp_pc c6)
           \<and> (\<forall>i<npc c6. i < length l \<longrightarrow> (\<not> cfg_is_set cfg P_pcout \<longrightarrow> l ! i)
                  \<and> (l ! i \<longrightarrow> label_found c6 i = 2))"
proof (cases "cfg_is_set cfg P_pcout")
  case True
  with assms have loop: "for_loop [0..<npc c6] (pc_file_body D E) (c6, inp) = Inr (c7, inp7)"
    by (auto simp: verify_pair_count_file_def Let_def split: if_splits)
  have "pcf_inv c6 False (npc c6) (c7, inp7)"
    by (rule for_loop_upt_inv[OF loop, where P = "pcf_inv c6 False"])
       (auto intro: pcf_inv_init pcf_inv_file_step)
  then show ?thesis using True unfolding pcf_inv_def by auto
next
  case False
  with assms have loop:
    "for_loop [0..<npc c6] pc_nofile_body (c6\<lparr>pcout := []\<rparr>, inp) = Inr (c7, inp7)"
    by (auto simp: verify_pair_count_file_def)
  have "pcf_inv (c6\<lparr>pcout := []\<rparr>) True (npc c6) (c7, inp7)"
    by (rule for_loop_upt_inv[OF loop, where P = "pcf_inv (c6\<lparr>pcout := []\<rparr>) True"])
       (auto intro: pcf_inv_init pcf_inv_nofile_step)
  then obtain l where l: "c7 = c6\<lparr>pcout := [], comp_pc := l\<rparr>"
    "length l = length (comp_pc c6)"
    "\<forall>i<npc c6. i < length l \<longrightarrow> l ! i \<and> (l ! i \<longrightarrow> label_found (c6\<lparr>pcout := []\<rparr>) i = 2)"
    unfolding pcf_inv_def by auto
  have "label_found (c6\<lparr>pcout := []\<rparr>) i = label_found c6 i" for i
    by (simp add: label_found_def)
  with l False show ?thesis by (intro exI[of _ l]) simp
qed

lemma verify_pair_count_file_nofile_Inl:
  assumes "verify_pair_count_file D E cfg s = Inl e" and "\<not> cfg_is_set cfg P_pcout"
  shows "e = FCFC_ERR_CFG"
proof -
  obtain c inp where s: "s = (c, inp)" by (cases s)
  from assms s have "for_loop [0..<npc c] pc_nofile_body (c\<lparr>pcout := []\<rparr>, inp) = Inl e"
    by (simp add: verify_pair_count_file_def)
  then show ?thesis by (rule for_loop_Inl) (rule pc_nofile_body_Inl)
qed


lemma sort_uniq_poles_eq: "\<exists>p n. sort_uniq_poles c = c\<lparr>poles := p, npole := n\<rparr>"
  by (auto simp: sort_uniq_poles_def split: prod.splits)

lemma poles_result_eq: "\<exists>p n. poles_result cfg c = c\<lparr>poles := p, npole := n\<rparr>"
proof (cases "cfg_get_size cfg P_poles > 1")
  case True
  from sort_uniq_poles_eq[of "c\<lparr>npole := cfg_get_size cfg P_poles\<rparr>"] True
  show ?thesis by (auto simp: poles_result_def)
next
  case False
  then show ?thesis
    by (auto simp: poles_result_def intro!: exI[of _ "poles c"] exI[of _ "cfg_get_size cfg P_poles"])
qed

lemma verify_multipole_Inr:
  assumes "verify_multipole D E cfg (c, inp) = Inr (c', inp')"
  shows "\<exists>m. c' = (poles_result cfg c)\<lparr>mpout := m\<rparr>"
    and "cfg_get_size cfg P_poles \<noteq> 0 \<Longrightarrow>
           \<not> poles (poles_result cfg c) ! 0 < 0 \<and>
           \<not> poles (poles_result cfg c) ! (npole (poles_result cfg c) - 1) > FCFC_MAX_ELL D"
proof -
  let ?c1 = "c\<lparr>npole := cfg_get_size cfg P_poles\<rparr>"
  show "\<exists>m. c' = (poles_result cfg c)\<lparr>mpout := m\<rparr>"
  proof (cases "cfg_get_size cfg P_poles = 0")
    case True
    with assms have "c' = ?c1" by (simp add: verify_multipole_def Let_def)
    with True show ?thesis
      by (intro exI[of _ "mpout c"]) (simp add: poles_result_def)
  next
    case False
    with assms obtain r where
      "verify_out_files D E cfg P_mpout (mpout (poles_result cfg c)) (ncf (poles_result cfg c))
         (ovwrite (poles_result cfg c)) inp = Inr r"
      and "(case r of (arr, inp') \<Rightarrow> Inr ((poles_result cfg c)\<lparr>mpout := arr\<rparr>, inp')) = Inr (c', inp')"
      by (auto simp: verify_multipole_def Let_def poles_result_def bind_err_Inr split: if_splits)
    then show ?thesis by (cases r) auto
  qed
  show "\<not> poles (poles_result cfg c) ! 0 < 0 \<and>
        \<not> poles (poles_result cfg c) ! (npole (poles_result cfg c) - 1) > FCFC_MAX_ELL D"
    if "cfg_get_size cfg P_poles \<noteq> 0"
    using assms that
    by (auto simp: verify_multipole_def Let_def poles_result_def split: if_splits)
qed

lemma verify_multipole_range_Inl:
  assumes "cfg_get_size cfg P_poles \<noteq> 0"
    and "poles (poles_result cfg c) ! 0 < 0 \<or>
         poles (poles_result cfg c) ! (npole (poles_result cfg c) - 1) > FCFC_MAX_ELL D"
  shows "verify_multipole D E cfg (c, inp) = Inl FCFC_ERR_CFG"
  using assms by (auto simp: verify_multipole_def Let_def poles_result_def)

lemma verify_wp_Inr:
  assumes "verify_wp D E cfg (c, inp) = Inr (c', inp')"
  shows "\<exists>w m. c' = c\<lparr>wp := w, wpout := m\<rparr>"
proof -
  let ?c = "if \<not> cfg_is_set cfg P_wp then c\<lparr>wp := DEFAULT_PROJECTED_CF D\<rparr> else c"
  have c: "?c = c\<lparr>wp := wp ?c\<rparr>" by simp
  show ?thesis
  proof (cases "wp ?c")
    case False
    with assms have "c' = ?c" by (auto simp: verify_wp_def Let_def split: if_splits)
    then show ?thesis
      by (intro exI[of _ "wp ?c"] exI[of _ "wpout c"]) (auto split: if_splits)
  next
    case True
    with assms obtain r where
      "(case r of (arr, inp') \<Rightarrow> Inr (?c\<lparr>wpout := arr\<rparr>, inp')) = Inr (c', inp')"
      by (auto simp: verify_wp_def Let_def bind_err_Inr split: if_splits)
    then obtain arr where "c' = ?c\<lparr>wpout := arr\<rparr>" by (cases r) auto
    then show ?thesis
      by (intro exI[of _ "wp ?c"] exI[of _ arr]) (auto split: if_splits)
  qed
qed

lemma verify_cf_Inr:
  assumes "verify_cf D E cfg (c, inp) = Inr (c', inp')"
  shows "same_core c c'"
    and "ncf c' = cfg_get_size cfg P_cf"
    and "cfg_get_size cfg P_cf \<noteq> 0 \<Longrightarrow> bintype c = FCFC_BIN_SMU D \<Longrightarrow>
           poles c' = poles (poles_result cfg c) \<and> npole c' = npole (poles_result cfg c)
           \<and> (cfg_get_size cfg P_poles \<noteq> 0 \<longrightarrow>
                \<not> poles c' ! 0 < 0 \<and> \<not> poles c' ! (npole c' - 1) > FCFC_MAX_ELL D)"
proof -
  let ?c = "c\<lparr>ncf := cfg_get_size cfg P_cf\<rparr>"
  have main: "same_core c c' \<and> ncf c' = cfg_get_size cfg P_cf \<and>
    (cfg_get_size cfg P_cf \<noteq> 0 \<longrightarrow> bintype c = FCFC_BIN_SMU D \<longrightarrow>
           poles c' = poles (poles_result cfg c) \<and> npole c' = npole (poles_result cfg c)
           \<and> (cfg_get_size cfg P_poles \<noteq> 0 \<longrightarrow>
                \<not> poles c' ! 0 < 0 \<and> \<not> poles c' ! (npole c' - 1) > FCFC_MAX_ELL D))"
  proof (cases "cfg_get_size cfg P_cf = 0")
    case True
    with assms have "c' = ?c" by (simp add: verify_cf_def Let_def)
    with True show ?thesis by (simp add: same_core_def)
  next
    case False
    with assms have "\<exists>arr inp1.
        (bintype c = FCFC_BIN_SMU D \<and>
           verify_multipole D E cfg (c\<lparr>ncf := cfg_get_size cfg P_cf, cfout := arr\<rparr>, inp1) = Inr (c', inp'))
      \<or> (bintype c \<noteq> FCFC_BIN_SMU D \<and> bintype c = FCFC_BIN_SPI D \<and>
           verify_wp D E cfg (c\<lparr>ncf := cfg_get_size cfg P_cf, cfout := arr\<rparr>, inp1) = Inr (c', inp'))
      \<or> (bintype c \<noteq> FCFC_BIN_SMU D \<and> bintype c \<noteq> FCFC_BIN_SPI D \<and>
           c' = c\<lparr>ncf := cfg_get_size cfg P_cf, cfout := arr\<rparr>)"
      by (auto simp: verify_cf_def Let_def bind_err_Inr split: if_splits)
    then obtain arr inp1 where r:
      "(bintype c = FCFC_BIN_SMU D \<and>
           verify_multipole D E cfg (c\<lparr>ncf := cfg_get_size cfg P_cf, cfout := arr\<rparr>, inp1) = Inr (c', inp'))
      \<or> (bintype c \<noteq> FCFC_BIN_SMU D \<and> bintype c = FCFC_BIN_SPI D \<and>
           verify_wp D E cfg (c\<lparr>ncf := cfg_get_size cfg P_cf, cfout := arr\<rparr>, inp1) = Inr (c', inp'))
      \<or> (bintype c \<noteq> FCFC_BIN_SMU D \<and> bintype c \<noteq> FCFC_BIN_SPI D \<and>
           c' = c\<lparr>ncf := cfg_get_size cfg P_cf, cfout := arr\<rparr>)" by blast
    let ?d = "?c\<lparr>cfout := arr\<rparr>"
    show ?thesis
    proof (cases "bintype c = FCFC_BIN_SMU D")
      case True
      with r have vm: "verify_multipole D E cfg (?d, inp1) = Inr (c', inp')"
        by simp
      from verify_multipole_Inr(1)[OF vm] obtain m where
        c': "c' = (poles_result cfg ?d)\<lparr>mpout := m\<rparr>" by blast
      from poles_result_eq[of cfg ?d] obtain p n where
        pr: "poles_result cfg ?d = ?d\<lparr>poles := p, npole := n\<rparr>" by blast
      have same: "poles (poles_result cfg ?d) = poles (poles_result cfg c)
                  \<and> npole (poles_result cfg ?d) = npole (poles_result cfg c)"
        by (simp add: poles_result_def sort_uniq_poles_def split: prod.splits)
      from verify_multipole_Inr(2)[OF vm] same c'
      have rng: "cfg_get_size cfg P_poles \<noteq> 0 \<longrightarrow>
                \<not> poles c' ! 0 < 0 \<and> \<not> poles c' ! (npole c' - 1) > FCFC_MAX_ELL D"
        by simp
      from c' pr have "same_core c c'" by (simp add: same_core_def)
      moreover from c' pr have "ncf c' = cfg_get_size cfg P_cf" by simp
      moreover from c' same have "poles c' = poles (poles_result cfg c)
         \<and> npole c' = npole (poles_result cfg c)" by simp
      ultimately show ?thesis using rng by blast
    next
      case nsmu: False
      show ?thesis
      proof (cases "bintype c = FCFC_BIN_SPI D")
        case True
        with r nsmu have "verify_wp D E cfg (?d, inp1) = Inr (c', inp')"
          by simp
        from verify_wp_Inr[OF this] obtain w m where "c' = ?d\<lparr>wp := w, wpout := m\<rparr>"
          by blast
        with nsmu show ?thesis by (simp add: same_core_def)
      next
        case False
        with r nsmu have "c' = ?d" by simp
        with nsmu show ?thesis by (simp add: same_core_def)
      qed
    qed
  qed
  from main show "same_core c c'" by blast
  from main show "ncf c' = cfg_get_size cfg P_cf" by blast
  from main show "poles c' = poles (poles_result cfg c) \<and> npole c' = npole (poles_result cfg c)
           \<and> (cfg_get_size cfg P_poles \<noteq> 0 \<longrightarrow>
                \<not> poles c' ! 0 < 0 \<and> \<not> poles c' ! (npole c' - 1) > FCFC_MAX_ELL D)"
    if "cfg_get_size cfg P_cf \<noteq> 0" "bintype c = FCFC_BIN_SMU D"
    using that by blast
qed

lemma verify_ofmt_Inr: "verify_ofmt D cfg c = Inr c' \<Longrightarrow> \<exists>f. c' = c\<lparr>ofmt := f\<rparr>"
  by (auto simp: verify_ofmt_def Let_def split: if_splits intro: exI[of _ "ofmt c"])

lemma verify_verbose_eq: "\<exists>v. verify_verbose D cfg c = c\<lparr>verbose := v\<rparr>"
  by (auto simp: verify_verbose_def intro: exI[of _ "verbose c"])

text \<open>A successful run, taken apart into its sections.\<close>

lemma conf_verify_Inr:
  assumes "conf_verify D E cfg conf inp = Inr (c', inp')"
  shows "\<exists>c7 inp7 c8 f v.
           verify_head D E cfg conf = Inr (head_result D cfg conf)
         \<and> verify_pair_count_file D E cfg (head_result D cfg conf, inp) = Inr (c7, inp7)
         \<and> verify_cf D E cfg (c7, inp7) = Inr (c8, inp')
         \<and> c' = c8\<lparr>ofmt := f, verbose := v\<rparr>"
proof -
  from assms obtain c6 s7 s8 where
    h: "verify_head D E cfg conf = Inr c6" and
    p: "verify_pair_count_file D E cfg (c6, inp) = Inr s7" and
    c: "verify_cf D E cfg s7 = Inr s8" and
    r: "(case s8 of (c8, inp8) \<Rightarrow>
          bind_err (verify_ofmt D cfg c8) (\<lambda>c9. Inr (verify_verbose D cfg c9, inp8))) = Inr (c', inp')"
    unfolding conf_verify_def bind_err_Inr by blast
  obtain c7 inp7 where s7: "s7 = (c7, inp7)" by (cases s7)
  obtain c8 inp8 where s8: "s8 = (c8, inp8)" by (cases s8)
  from r s8 obtain c9 where o: "verify_ofmt D cfg c8 = Inr c9"
    and e: "c' = verify_verbose D cfg c9" "inp' = inp8"
    by (auto simp: bind_err_Inr)
  from verify_ofmt_Inr[OF o] obtain f where f: "c9 = c8\<lparr>ofmt := f\<rparr>" by blast
  from verify_verbose_eq[of D cfg c9] obtain v where v: "verify_verbose D cfg c9 = c9\<lparr>verbose := v\<rparr>"
    by blast
  from verify_head_Inr(1)[OF h] have c6: "c6 = head_result D cfg conf" .
  show ?thesis using h p c e f v unfolding c6 s7 s8 by blast
qed


lemma head_result_simps:
  "label (head_result D cfg conf) = (if cfg_get_size cfg P_label = 0 then [] else label conf)"
  "ninput (head_result D cfg conf) = cfg_get_size cfg P_label"
  "pc (head_result D cfg conf) = pc conf"
  "npc (head_result D cfg conf) = cfg_get_size cfg P_pc"
  "comp_pc (head_result D cfg conf) = replicate (cfg_get_size cfg P_pc) False"
  "bsize (head_result D cfg conf) =
     (if cfg_get_size cfg P_bsize = 1 then replicate 3 (bsize conf ! 0) else bsize conf)"
  "bintype (head_result D cfg conf) =
     (if cfg_is_set cfg P_bintype then bintype conf else DEFAULT_BINNING D)"
  "ovwrite (head_result D cfg conf) =
     (if cfg_is_set cfg P_ovwrite then ovwrite conf else DEFAULT_OVERWRITE D)"
  "pcout (head_result D cfg conf) = pcout conf"
  "poles (head_result D cfg conf) = poles conf"
  "cf (head_result D cfg conf) = cf conf"
  by (simp_all add: head_result_def)

lemma conf_verify_head_Inl:
  "verify_head D E cfg conf = Inl e \<Longrightarrow> conf_verify D E cfg conf inp = Inl e"
  by (simp add: conf_verify_def bind_err_def)

text \<open>What every successful run of \<open>conf_verify\<close> leaves in the configuration.\<close>

lemma conf_verify_core:
  assumes "conf_verify D E cfg conf inp = Inr (c', inp')"
  shows "verify_head D E cfg conf = Inr (head_result D cfg conf)"
    and "label c' = (if cfg_get_size cfg P_label = 0 then [] else label conf)"
    and "ninput c' = cfg_get_size cfg P_label"
    and "pc c' = pc conf"
    and "npc c' = cfg_get_size cfg P_pc"
    and "bsize c' = (if cfg_get_size cfg P_bsize = 1 then replicate 3 (bsize conf ! 0) else bsize conf)"
    and "bintype c' = (if cfg_is_set cfg P_bintype then bintype conf else DEFAULT_BINNING D)"
    and "ovwrite c' = (if cfg_is_set cfg P_ovwrite then ovwrite conf else DEFAULT_OVERWRITE D)"
    and "pcout c' = (if cfg_is_set cfg P_pcout then pcout conf else [])"
    and "length (comp_pc c') = cfg_get_size cfg P_pc"
    and "i < cfg_get_size cfg P_pc \<Longrightarrow> \<not> cfg_is_set cfg P_pcout \<Longrightarrow> comp_pc c' ! i"
    and "i < cfg_get_size cfg P_pc \<Longrightarrow> comp_pc c' ! i \<Longrightarrow> label_found (head_result D cfg conf) i = 2"
proof -
  from conf_verify_Inr[OF assms] obtain c7 inp7 c8 f v where
    h: "verify_head D E cfg conf = Inr (head_result D cfg conf)" and
    p: "verify_pair_count_file D E cfg (head_result D cfg conf, inp) = Inr (c7, inp7)" and
    c: "verify_cf D E cfg (c7, inp7) = Inr (c8, inp')" and
    e: "c' = c8\<lparr>ofmt := f, verbose := v\<rparr>" by blast
  let ?h = "head_result D cfg conf"
  from verify_pair_count_file_Inr[OF p] obtain l where
    c7: "c7 = ?h\<lparr>comp_pc := l, pcout := (if cfg_is_set cfg P_pcout then pcout ?h else [])\<rparr>"
    and len: "length l = length (comp_pc ?h)"
    and l: "\<forall>i<npc ?h. i < length l \<longrightarrow> (\<not> cfg_is_set cfg P_pcout \<longrightarrow> l ! i)
                  \<and> (l ! i \<longrightarrow> label_found ?h i = 2)" by blast
  from verify_cf_Inr(1)[OF c] have sc: "same_core c7 c8" .
  show "verify_head D E cfg conf = Inr ?h" by (rule h)
  have cp: "comp_pc c' = l" using sc e c7 by (simp add: same_core_def)
  show "label c' = (if cfg_get_size cfg P_label = 0 then [] else label conf)"
    using sc e c7 by (simp add: same_core_def head_result_simps)
  show "ninput c' = cfg_get_size cfg P_label"
    using sc e c7 by (simp add: same_core_def head_result_simps)
  show "pc c' = pc conf" using sc e c7 by (simp add: same_core_def head_result_simps)
  show "npc c' = cfg_get_size cfg P_pc" using sc e c7 by (simp add: same_core_def head_result_simps)
  show "bsize c' = (if cfg_get_size cfg P_bsize = 1 then replicate 3 (bsize conf ! 0) else bsize conf)"
    using sc e c7 by (simp add: same_core_def head_result_simps)
  show "bintype c' = (if cfg_is_set cfg P_bintype then bintype conf else DEFAULT_BINNING D)"
    using sc e c7 by (simp add: same_core_def head_result_simps)
  show "ovwrite c' = (if cfg_is_set cfg P_ovwrite then ovwrite conf else DEFAULT_OVERWRITE D)"
    using sc e c7 by (simp add: same_core_def head_result_simps)
  show "pcout c' = (if cfg_is_set cfg P_pcout then pcout conf else [])"
    using sc e c7 by (simp add: same_core_def head_result_simps)
  show "length (comp_pc c') = cfg_get_size cfg P_pc"
    using cp len by (simp add: head_result_simps)
  show "comp_pc c' ! i" if "i < cfg_get_size cfg P_pc" "\<not> cfg_is_set cfg P_pcout"
    using that l len cp by (simp add: head_result_simps)
  show "label_found ?h i = 2" if "i < cfg_get_size cfg P_pc" "comp_pc c' ! i"
    using that l len cp by (simp add: head_result_simps)
qed

lemma finite_positive_iff: "isfinite d \<and> \<not> dle0 d \<longleftrightarrow> (\<exists>r>0. d = Finite r)"
  by (cases d) auto

lemma verify_head_box:
  assumes "verify_head D E cfg conf = Inr c"
  shows "cfg_get_size cfg P_bsize \<noteq> 0 \<and> cfg_get_size cfg P_bsize \<noteq> 2
         \<and> (\<forall>i<3. \<exists>r>0. bsize c ! i = Finite r)"
proof -
  from verify_head_Inr(3)[OF assms] obtain c2 where
    b: "verify_box cfg E c2 =
          Inr (c\<lparr>ovwrite := ovwrite c2, dstruct := dstruct c2, bintype := bintype c2,
                 npc := npc c2, comp_pc := comp_pc c2\<rparr>)" by blast
  from verify_box_Inr(2,3)[OF b] verify_box_Inr(4)[OF b]
  show ?thesis by (simp add: finite_positive_iff)
qed

lemma verify_head_unset_box:
  assumes "cfg_get_size cfg P_bsize = 0"
  shows "\<exists>e. verify_head D E cfg conf = Inl e"
proof (cases "verify_head D E cfg conf")
  case (Inl e)
  then show ?thesis by blast
next
  case (Inr c)
  from verify_head_box[OF Inr] assms show ?thesis by simp
qed

lemma verify_head_labels:
  assumes "verify_head D E cfg conf = Inr c"
    and "length (label conf) = cfg_get_size cfg P_label"
  shows "distinct (label c)" and "\<forall>x \<in> set (label c). upper x"
proof -
  from verify_head_Inr(2)[OF assms(1)] obtain c1 where l: "verify_label cfg E conf = Inr c1"
    by blast
  have lc: "label c = (if cfg_get_size cfg P_label = 0 then [] else label conf)"
    using verify_head_Inr(1)[OF assms(1)] by (simp add: head_result_simps)
  show "distinct (label c)"
  proof (cases "cfg_get_size cfg P_label = 0")
    case True
    with lc show ?thesis by simp
  next
    case False
    have "label conf ! i \<noteq> label conf ! j" if "i < j" "j < length (label conf)" for i j
      using verify_label_Inr(3)[OF l False, of i j] that assms(2) by simp
    then have "distinct (label conf)"
      unfolding distinct_conv_nth by (metis nat_neq_iff)
    with lc False show ?thesis by simp
  qed
  show "\<forall>x \<in> set (label c). upper x"
  proof (cases "cfg_get_size cfg P_label = 0")
    case True
    with lc show ?thesis by simp
  next
    case False
    have "upper (label conf ! i)" if "i < length (label conf)" for i
      using verify_label_Inr(2)[OF l False, of i] that assms(2) by (simp add: not_upper_iff)
    then have "\<forall>x \<in> set (label conf). upper x" by (auto simp: in_set_conv_nth)
    with lc False show ?thesis by simp
  qed
qed

lemma verify_head_pc:
  assumes "verify_head D E cfg conf = Inr c"
    and "length (pc conf) = cfg_get_size cfg P_pc"
  shows "distinct (pc conf)" and "\<forall>s \<in> set (pc conf). \<not> pc_invalid s" and "pc conf \<noteq> []"
proof -
  from verify_head_Inr(4)[OF assms(1)] obtain c5 where
    p: "verify_pair_count cfg E c5 = Inr c" and e: "pc c5 = pc conf" by blast
  have "pc conf ! i \<noteq> pc conf ! j" if "i < j" "j < length (pc conf)" for i j
    using verify_pair_count_Inr(4)[OF p, of i j] that assms(2) e by auto
  then show "distinct (pc conf)"
    unfolding distinct_conv_nth by (metis nat_neq_iff)
  have "\<not> pc_invalid (pc conf ! i)" if "i < length (pc conf)" for i
    using verify_pair_count_Inr(3)[OF p, of i] that assms(2) e by simp
  then show "\<forall>s \<in> set (pc conf). \<not> pc_invalid s" by (auto simp: in_set_conv_nth)
  from verify_pair_count_Inr(2)[OF p] assms(2) show "pc conf \<noteq> []" by auto
qed

lemma conf_verify_head_cases:
  assumes "\<And>c. verify_head D E cfg conf \<noteq> Inr c" and "\<forall>a. alloc_ok E a"
  shows "conf_verify D E cfg conf inp = Inl FCFC_ERR_CFG"
proof (cases "verify_head D E cfg conf")
  case (Inl e)
  from verify_head_Inl[OF Inl] assms(2) have "e = FCFC_ERR_CFG" by blast
  with Inl show ?thesis by (simp add: conf_verify_head_Inl)
next
  case (Inr c)
  with assms(1) show ?thesis by blast
qed






lemma conf_verify_pcf_Inl:
  "verify_head D E cfg conf = Inr c \<Longrightarrow> verify_pair_count_file D E cfg (c, inp) = Inl e \<Longrightarrow>
   conf_verify D E cfg conf inp = Inl e"
  by (simp add: conf_verify_def bind_err_def)


lemma label_found_no_input: "ninput conf = 0 \<Longrightarrow> label_found conf i = 0"
  by (simp add: label_found_def)

lemma verify_head_npc: "verify_head D E cfg conf = Inr c \<Longrightarrow> cfg_get_size cfg P_pc \<noteq> 0"
  using verify_head_Inr(4) verify_pair_count_Inr(2) by blast

lemma conf_verify_nofile_CFG:
  assumes "\<not> cfg_is_set cfg P_pcout" and "\<forall>a. alloc_ok E a"
    and "\<And>c s. verify_head D E cfg conf = Inr c \<Longrightarrow> verify_pair_count_file D E cfg (c, inp) \<noteq> Inr s"
  shows "conf_verify D E cfg conf inp = Inl FCFC_ERR_CFG"
proof (cases "verify_head D E cfg conf")
  case (Inl e)
  from verify_head_Inl[OF Inl] assms(2) have "e = FCFC_ERR_CFG" by blast
  with Inl show ?thesis by (simp add: conf_verify_head_Inl)
next
  case (Inr c)
  show ?thesis
  proof (cases "verify_pair_count_file D E cfg (c, inp)")
    case (Inl e)
    from verify_pair_count_file_nofile_Inl[OF Inl assms(1)] conf_verify_pcf_Inl[OF Inr Inl]
    show ?thesis by simp
  next
    case pr: (Inr s7)
    with assms(3)[OF Inr] show ?thesis by blast
  qed
qed

lemma check_output_nonneg:
  assumes "fname \<noteq> []" and "0 \<le> ovw"
  shows "check_output D E fname ovw force inp =
     (if access E fname F_OK then
        (if ovw \<le> FCFC_OVERWRITE_NONE D then Some FCFC_ERR_FILE
         else if force \<le> ovw then (if access E fname W_OK then None else Some FCFC_ERR_FILE)
         else if access E fname R_OK then Some FCFC_ERR_SAVE else Some FCFC_ERR_FILE)
      else (case path_dir (FCFC_PATH_SEP D) fname of None \<Rightarrow> None
            | Some dir \<Rightarrow> if access E dir X_OK then None else Some FCFC_ERR_FILE), inp)"
  using assms by (simp add: check_output_def split: option.splits)

lemma check_output_read:
  assumes "fname \<noteq> []" and "0 \<le> ovw" and "pc_read_cond D E fname ovw"
  shows "check_output D E fname ovw (FCFC_OVERWRITE_ALL D) inp = (Some FCFC_ERR_SAVE, inp)"
  using assms(3) unfolding check_output_nonneg[OF assms(1,2)] pc_read_cond_def by simp

lemma check_output_abort:
  assumes "fname \<noteq> []" and "0 \<le> ovw" and "pc_abort_cond D E fname ovw"
  shows "check_output D E fname ovw (FCFC_OVERWRITE_ALL D) inp = (Some FCFC_ERR_FILE, inp)"
  using assms(3) unfolding check_output_nonneg[OF assms(1,2)] pc_abort_cond_def
  by (auto split: option.splits)

lemma check_output_write:
  assumes "fname \<noteq> []" and "0 \<le> ovw"
    and "\<not> pc_read_cond D E fname ovw" and "\<not> pc_abort_cond D E fname ovw"
  shows "check_output D E fname ovw (FCFC_OVERWRITE_ALL D) inp = (None, inp)"
  using assms(3,4) unfolding check_output_nonneg[OF assms(1,2)] pc_abort_cond_def pc_read_cond_def
  by (auto split: option.splits)

lemma read_abort_exclusive: "pc_read_cond D E f ovw \<Longrightarrow> \<not> pc_abort_cond D E f ovw"
  by (auto simp: pc_read_cond_def pc_abort_cond_def)

lemma set_insr: "set (insr t ys) = insert t (set ys)"
  by (induction ys) auto

lemma length_insr: "length (insr t ys) = Suc (length ys)"
  by (induction ys) auto

lemma sorted_insr: "sorted (rev ys) \<Longrightarrow> sorted (rev (insr t ys))"
  by (induction ys) (auto simp: sorted_append set_insr)

lemma ins_shift_spec:
  "k < length a \<Longrightarrow>
   (case ins_shift a k tmp of (a', num) \<Rightarrow> a'[num := tmp])
     = rev (insr tmp (rev (take k a))) @ drop (Suc k) a"
proof (induction k arbitrary: a)
  case 0
  then show ?case by (cases a) simp_all
next
  case (Suc k)
  show ?case
  proof (cases "a ! k > tmp")
    case True
    let ?a = "a[Suc k := a ! k]"
    have k: "k < length ?a" using Suc.prems by simp
    have d: "drop (Suc k) ?a = a ! k # drop (Suc (Suc k)) a"
      using Suc.prems by (simp add: drop_update_swap flip: Cons_nth_drop_Suc)
    have t: "take (Suc k) a = take k a @ [a ! k]"
      using Suc.prems by (simp add: take_Suc_conv_app_nth)
    from True have "(case ins_shift a (Suc k) tmp of (a', num) \<Rightarrow> a'[num := tmp])
        = (case ins_shift ?a k tmp of (a', num) \<Rightarrow> a'[num := tmp])" by simp
    also have "\<dots> = rev (insr tmp (rev (take k ?a))) @ drop (Suc k) ?a"
      by (rule Suc.IH[OF k])
    also have "\<dots> = rev (insr tmp (rev (take k a))) @ a ! k # drop (Suc (Suc k)) a"
      by (simp add: d)
    also have "\<dots> = rev (insr tmp (rev (take (Suc k) a))) @ drop (Suc (Suc k)) a"
      using True by (simp add: t)
    finally show ?thesis .
  next
    case False
    have t: "take (Suc k) a = take k a @ [a ! k]"
      using Suc.prems by (simp add: take_Suc_conv_app_nth)
    from False have "(case ins_shift a (Suc k) tmp of (a', num) \<Rightarrow> a'[num := tmp])
        = a[Suc k := tmp]" by simp
    also have "\<dots> = take (Suc k) a @ tmp # drop (Suc (Suc k)) a"
      using Suc.prems by (simp add: upd_conv_take_nth_drop)
    also have "\<dots> = rev (insr tmp (rev (take (Suc k) a))) @ drop (Suc (Suc k)) a"
      using False by (simp add: t)
    finally show ?thesis .
  qed
qed

lemma ins_step_spec:
  "k < length a \<Longrightarrow> ins_step k a = rev (insr (a ! k) (rev (take k a))) @ drop (Suc k) a"
  unfolding ins_step_def Let_def by (rule ins_shift_spec)

lemma nth_of_drop_eq:
  assumes "drop m b = drop m a" and "m < length a" and "length b = length a"
  shows "b ! m = a ! m"
proof -
  have "b ! m = drop m b ! 0" using assms(2,3) by simp
  also have "\<dots> = drop m a ! 0" by (simp only: assms(1))
  also have "\<dots> = a ! m" using assms(2) by simp
  finally show ?thesis .
qed

lemma drop_Suc_eq: "drop m b = drop m a \<Longrightarrow> drop (Suc m) b = drop (Suc m) a"
  by (metis drop_Suc tl_drop)

text \<open>The state of the array after the rounds \<open>1, \<dots>, m\<close> of the insertion sort.\<close>

lemma insertion_sort_inv:
  "Suc m \<le> length a \<Longrightarrow>
   length (insertion_sort a (Suc m)) = length a
   \<and> sorted (take (Suc m) (insertion_sort a (Suc m)))
   \<and> set (take (Suc m) (insertion_sort a (Suc m))) = set (take (Suc m) a)
   \<and> drop (Suc m) (insertion_sort a (Suc m)) = drop (Suc m) a"
proof (induction m)
  case 0
  then show ?case by (cases a) (simp_all add: insertion_sort_def)
next
  case (Suc m)
  let ?b = "insertion_sort a (Suc m)"
  let ?k = "Suc m"
  from Suc have len: "length ?b = length a" and so: "sorted (take ?k ?b)"
    and se: "set (take ?k ?b) = set (take ?k a)" and dr: "drop ?k ?b = drop ?k a"
    by simp_all
  have k: "?k < length ?b" using Suc.prems len by simp
  have nth: "?b ! ?k = a ! ?k"
    by (rule nth_of_drop_eq[OF dr]) (use Suc.prems len in simp_all)
  have step: "insertion_sort a (Suc ?k) = ins_step ?k ?b"
    by (simp add: insertion_sort_def)
  let ?p = "rev (insr (?b ! ?k) (rev (take ?k ?b)))"
  have spec: "insertion_sort a (Suc ?k) = ?p @ drop (Suc ?k) ?b"
    unfolding step by (rule ins_step_spec[OF k])
  have lp: "length ?p = Suc ?k" using k by (simp add: length_insr)
  have tk: "take (Suc ?k) (insertion_sort a (Suc ?k)) = ?p"
    unfolding spec using lp by simp
  have dk: "drop (Suc ?k) (insertion_sort a (Suc ?k)) = drop (Suc ?k) ?b"
    unfolding spec using lp by simp
  have 1: "length (insertion_sort a (Suc ?k)) = length a"
    unfolding spec using lp k len by simp
  have 2: "sorted (take (Suc ?k) (insertion_sort a (Suc ?k)))"
    unfolding tk by (rule sorted_insr) (simp add: so)
  have "set ?p = insert (a ! ?k) (set (take ?k a))"
    by (simp add: set_insr se nth)
  also have "\<dots> = set (take (Suc ?k) a)"
    using Suc.prems by (subst take_Suc_conv_app_nth[of ?k a]) auto
  finally have 3: "set (take (Suc ?k) (insertion_sort a (Suc ?k))) = set (take (Suc ?k) a)"
    unfolding tk .
  have 4: "drop (Suc ?k) (insertion_sort a (Suc ?k)) = drop (Suc ?k) a"
    unfolding dk by (rule drop_Suc_eq[OF dr])
  from 1 2 3 4 show ?case by blast
qed

text \<open>The state after the rounds \<open>1, \<dots>, m\<close> of the removal of duplicates.\<close>

lemma dedup_inv:
  "Suc m \<le> length a \<Longrightarrow>
   (case dedup a (Suc m) of (b, num) \<Rightarrow>
      num \<le> m \<and> length b = length a
      \<and> take (Suc num) b = remdups_adj (take (Suc m) a)
      \<and> drop (Suc m) b = drop (Suc m) a)"
proof (induction m)
  case 0
  then show ?case by (cases a) (simp_all add: dedup_def)
next
  case (Suc m)
  let ?k = "Suc m"
  obtain b num where d: "dedup a ?k = (b, num)" by (cases "dedup a ?k")
  with Suc have num: "num \<le> m" and len: "length b = length a"
    and tk: "take (Suc num) b = remdups_adj (take ?k a)" and dr: "drop ?k b = drop ?k a"
    by simp_all
  have step: "dedup a (Suc ?k) = dedup_step ?k (b, num)"
    using d by (simp add: dedup_def)
  have nth: "b ! ?k = a ! ?k"
    by (rule nth_of_drop_eq[OF dr]) (use Suc.prems len in simp_all)
  have ne: "take ?k a \<noteq> []" using Suc.prems by auto
  have "b ! num = last (take (Suc num) b)"
    using num len Suc.prems by (simp add: take_Suc_conv_app_nth)
  also have "\<dots> = last (take ?k a)" unfolding tk by simp
  also have "\<dots> = a ! m" using Suc.prems by (simp add: take_Suc_conv_app_nth)
  finally have bn: "b ! num = a ! m" .
  have ta: "take (Suc ?k) a = take m a @ [a ! m, a ! ?k]"
    using Suc.prems by (simp add: take_Suc_conv_app_nth)
  have tm: "take ?k a = take m a @ [a ! m]"
    using Suc.prems by (simp add: take_Suc_conv_app_nth)
  have rd: "remdups_adj (take (Suc ?k) a)
            = remdups_adj (take ?k a) @ (if a ! m = a ! ?k then [] else [a ! ?k])"
    unfolding ta tm by (rule remdups_adj_append_two)
  show ?case
  proof (cases "a ! ?k = a ! m")
    case True
    then have "dedup a (Suc ?k) = (b, num)"
      unfolding step by (simp add: dedup_step_def nth bn)
    with True num len tk rd drop_Suc_eq[OF dr] show ?thesis by simp
  next
    case False
    then have s: "dedup a (Suc ?k) = (b[Suc num := a ! ?k], Suc num)"
      unfolding step by (simp add: dedup_step_def nth bn)
    have sn: "Suc num < length b" using num len Suc.prems by simp
    have "take (Suc (Suc num)) (b[Suc num := a ! ?k]) = take (Suc num) b @ [a ! ?k]"
      using sn by (simp add: take_Suc_conv_app_nth)
    also have "\<dots> = remdups_adj (take (Suc ?k) a)"
      unfolding rd tk using False by simp
    finally have t': "take (Suc (Suc num)) (b[Suc num := a ! ?k]) = remdups_adj (take (Suc ?k) a)" .
    have d': "drop (Suc ?k) (b[Suc num := a ! ?k]) = drop (Suc ?k) a"
      using drop_Suc_eq[OF dr] num by simp
    from s t' d' num len show ?thesis by simp
  qed
qed

lemma strict_sorted_remdups_adj: "sorted xs \<Longrightarrow> sorted_wrt (<) (remdups_adj xs)"
proof (induction xs rule: remdups_adj.induct)
  case (3 x y xs)
  then show ?case by (auto simp: less_le)
qed simp_all

text \<open>
  Sorting and removing the duplicates of the first \<open>n\<close> elements, for \<open>n \<ge> 1\<close>: the new
  \<^verbatim>\<open>npole\<close> leading elements are the distinct elements of the old ones, in increasing order.
\<close>

lemma sort_uniq_spec:
  assumes "0 < n" and "n \<le> length a"
  shows "case dedup (insertion_sort a n) n of (b, num) \<Rightarrow>
           take (Suc num) b = sorted_list_of_set (set (take n a))
           \<and> Suc num = card (set (take n a)) \<and> Suc num \<le> n \<and> length b = length a"
proof -
  from assms(1) obtain m where n: "n = Suc m" by (cases n) auto
  let ?s = "insertion_sort a n"
  from insertion_sort_inv[of m a] assms(2) n
  have len: "length ?s = length a" and so: "sorted (take n ?s)"
    and se: "set (take n ?s) = set (take n a)" by simp_all
  obtain b num where d: "dedup ?s n = (b, num)" by (cases "dedup ?s n")
  from dedup_inv[of m ?s] d n len assms(2)
  have num: "num \<le> m" and lb: "length b = length ?s"
    and tk: "take (Suc num) b = remdups_adj (take n ?s)" by simp_all
  have ss: "sorted_wrt (<) (take (Suc num) b)"
    unfolding tk by (rule strict_sorted_remdups_adj[OF so])
  have st: "set (take (Suc num) b) = set (take n a)" unfolding tk by (simp add: se)
  have eq: "take (Suc num) b = sorted_list_of_set (set (take n a))"
    using ss st by (metis sorted_list_of_set.idem_if_sorted_distinct strict_sorted_iff)
  have "Suc num = length (take (Suc num) b)" using num lb len assms(2) n by simp
  also have "\<dots> = card (set (take n a))"
    unfolding eq by simp
  finally have c: "Suc num = card (set (take n a))" .
  from eq c num n lb len d show ?thesis by simp
qed

lemma poles_result_cong:
  "poles c = poles d \<Longrightarrow>
   poles (poles_result cfg c) = poles (poles_result cfg d)
   \<and> npole (poles_result cfg c) = npole (poles_result cfg d)"
  by (simp add: poles_result_def sort_uniq_poles_def split: prod.splits)

lemma poles_result_spec:
  assumes "length (poles c) = cfg_get_size cfg P_poles"
  shows "take (npole (poles_result cfg c)) (poles (poles_result cfg c))
           = sorted_list_of_set (set (poles c))"
    and "npole (poles_result cfg c) = card (set (poles c))"
proof -
  let ?n = "cfg_get_size cfg P_poles"
  have "take (npole (poles_result cfg c)) (poles (poles_result cfg c))
           = sorted_list_of_set (set (poles c))
        \<and> npole (poles_result cfg c) = card (set (poles c))"
  proof (cases "?n > 1")
    case True
    then have n: "0 < ?n" "?n \<le> length (poles c)" using assms by simp_all
    obtain b num where d: "dedup (insertion_sort (poles c) ?n) ?n = (b, num)"
      by (cases "dedup (insertion_sort (poles c) ?n) ?n")
    have tk: "take ?n (poles c) = poles c" using assms by simp
    from sort_uniq_spec[OF n]
    have "take (Suc num) b = sorted_list_of_set (set (poles c))"
      and "Suc num = card (set (poles c))" unfolding d tk prod.case by blast+
    moreover from True d have "poles (poles_result cfg c) = b" "npole (poles_result cfg c) = Suc num"
      by (simp_all add: poles_result_def sort_uniq_poles_def)
    ultimately show ?thesis by simp
  next
    case False
    then have r: "poles (poles_result cfg c) = poles c" "npole (poles_result cfg c) = ?n"
      by (simp_all add: poles_result_def)
    from False have "?n = 0 \<or> ?n = 1" by auto
    then show ?thesis
    proof
      assume "?n = 0"
      with assms r show ?thesis by simp
    next
      assume "?n = 1"
      with assms obtain x where "poles c = [x]"
        by (cases "poles c") auto
      with r \<open>?n = 1\<close> show ?thesis by simp
    qed
  qed
  then show "take (npole (poles_result cfg c)) (poles (poles_result cfg c))
           = sorted_list_of_set (set (poles c))"
    and "npole (poles_result cfg c) = card (set (poles c))" by blast+
qed

lemma sorted_ends:
  assumes "sorted xs" and "x \<in> set xs"
  shows "xs ! 0 \<le> x \<and> x \<le> xs ! (length xs - 1)"
proof -
  from assms(2) obtain i where i: "i < length xs" "xs ! i = x"
    by (auto simp: in_set_conv_nth)
  from sorted_nth_mono[OF assms(1), of 0 i] i have "xs ! 0 \<le> x" by simp
  moreover from sorted_nth_mono[OF assms(1), of i "length xs - 1"] i
  have "x \<le> xs ! (length xs - 1)" by simp
  ultimately show ?thesis ..
qed

text \<open>
  The first and the last of the \<^verbatim>\<open>npole\<close> orders kept bound all the requested orders.
\<close>

lemma poles_result_ends:
  assumes "length (poles c) = cfg_get_size cfg P_poles" and "l \<in> set (poles c)"
  shows "poles (poles_result cfg c) ! 0 \<le> l"
    and "l \<le> poles (poles_result cfg c) ! (npole (poles_result cfg c) - 1)"
proof -
  let ?p = "poles (poles_result cfg c)" and ?n = "npole (poles_result cfg c)"
  let ?xs = "take ?n ?p"
  note sp = poles_result_spec[OF assms(1)]
  have so: "sorted ?xs" and mem: "l \<in> set ?xs"
    unfolding sp(1) using assms(2) by simp_all
  have "length ?xs = card (set (poles c))" unfolding sp(1) by simp
  with sp(2) have len: "length ?xs = ?n" by simp
  from mem have pos: "0 < ?n" using len by (cases ?xs) auto
  from sorted_ends[OF so mem] have "?xs ! 0 \<le> l" "l \<le> ?xs ! (length ?xs - 1)" by simp_all
  moreover have "?xs ! 0 = ?p ! 0" using pos by simp
  moreover have "?xs ! (length ?xs - 1) = ?p ! (?n - 1)"
    unfolding len using pos by simp
  ultimately show "?p ! 0 \<le> l" "l \<le> ?p ! (?n - 1)" by simp_all
qed

lemma conf_verify_poles:
  assumes "conf_verify D E cfg conf inp = Inr (c', inp')"
    and "bintype c' = FCFC_BIN_SMU D" and "ncf c' \<noteq> 0"
  shows "poles c' = poles (poles_result cfg conf)"
    and "npole c' = npole (poles_result cfg conf)"
    and "cfg_get_size cfg P_poles \<noteq> 0 \<Longrightarrow>
           \<not> poles c' ! 0 < 0 \<and> \<not> poles c' ! (npole c' - 1) > FCFC_MAX_ELL D"
proof -
  from conf_verify_Inr[OF assms(1)] obtain c7 inp7 c8 f v where
    p: "verify_pair_count_file D E cfg (head_result D cfg conf, inp) = Inr (c7, inp7)" and
    c: "verify_cf D E cfg (c7, inp7) = Inr (c8, inp')" and
    e: "c' = c8\<lparr>ofmt := f, verbose := v\<rparr>" by blast
  let ?h = "head_result D cfg conf"
  from verify_pair_count_file_Inr[OF p] obtain l where
    c7: "c7 = ?h\<lparr>comp_pc := l, pcout := (if cfg_is_set cfg P_pcout then pcout ?h else [])\<rparr>"
    by blast
  have p7: "poles c7 = poles conf" by (subst c7) (simp add: head_result_simps)
  from verify_cf_Inr(1)[OF c] have "bintype c8 = bintype c7" by (simp add: same_core_def)
  with assms(2) e have b7: "bintype c7 = FCFC_BIN_SMU D" by simp
  from verify_cf_Inr(2)[OF c] assms(3) e have n7: "cfg_get_size cfg P_cf \<noteq> 0" by simp
  from verify_cf_Inr(3)[OF c n7 b7]
  have r1: "poles c8 = poles (poles_result cfg c7)"
    and r2: "npole c8 = npole (poles_result cfg c7)"
    and r3: "cfg_get_size cfg P_poles \<noteq> 0 \<longrightarrow>
                \<not> poles c8 ! 0 < 0 \<and> \<not> poles c8 ! (npole c8 - 1) > FCFC_MAX_ELL D"
    by blast+
  note pc = poles_result_cong[OF p7, of cfg]
  have e1: "poles c' = poles c8" "npole c' = npole c8" using e by simp_all
  from r1 r2 pc show "poles c' = poles (poles_result cfg conf)"
    and "npole c' = npole (poles_result cfg conf)" unfolding e1 by simp_all
  from r3 show "\<not> poles c' ! 0 < 0 \<and> \<not> poles c' ! (npole c' - 1) > FCFC_MAX_ELL D"
    if "cfg_get_size cfg P_poles \<noteq> 0" using that unfolding e1 by blast
qed

lemma edges_increasing_iff:
  "edges_increasing xs \<longleftrightarrow> (\<forall>i. Suc i < length xs \<longrightarrow> dlt (xs ! i) (xs ! Suc i))"
proof (induction xs rule: edges_increasing.induct)
  case (3 x y r)
  show ?case
  proof
    assume a: "edges_increasing (x # y # r)"
    show "\<forall>i. Suc i < length (x # y # r) \<longrightarrow> dlt ((x # y # r) ! i) ((x # y # r) ! Suc i)"
    proof (intro allI impI)
      fix i assume i: "Suc i < length (x # y # r)"
      show "dlt ((x # y # r) ! i) ((x # y # r) ! Suc i)"
      proof (cases i)
        case 0
        with a show ?thesis by simp
      next
        case (Suc j)
        with a i 3 show ?thesis by simp
      qed
    qed
  next
    assume a: "\<forall>i. Suc i < length (x # y # r) \<longrightarrow> dlt ((x # y # r) ! i) ((x # y # r) ! Suc i)"
    from a[rule_format, of 0] have "dlt x y" by simp
    moreover have "\<forall>i. Suc i < length (y # r) \<longrightarrow> dlt ((y # r) ! i) ((y # r) ! Suc i)"
    proof (intro allI impI)
      fix i assume "Suc i < length (y # r)"
      with a[rule_format, of "Suc i"] show "dlt ((y # r) ! i) ((y # r) ! Suc i)" by simp
    qed
    ultimately show "edges_increasing (x # y # r)" using 3 by simp
  qed
qed simp_all

lemma make_binspec_iff: "make_binspec edges = Inr edges \<longleftrightarrow> bin_invariant edges"
  unfolding make_binspec_def bin_invariant_def edges_increasing_iff list_all_iff
  by auto

lemma make_binspec_Inl: "\<not> bin_invariant edges \<Longrightarrow> make_binspec edges = Inl FCFC_ERR_CFG"
  using make_binspec_iff[of edges] by (auto simp: make_binspec_def split: if_splits)

text \<open>
  An order out of range, met after every section before the MULTIPOLE check has passed,
  makes the whole function return \<^verbatim>\<open>FCFC_ERR_CFG\<close>.
\<close>

lemma conf_verify_multipole_CFG:
  assumes wf: "length (poles conf) = cfg_get_size cfg P_poles"
    and l: "l \<in> set (poles conf)" and bad: "l < 0 \<or> FCFC_MAX_ELL D < l"
    and h: "verify_head D E cfg conf = Inr c6"
    and p: "verify_pair_count_file D E cfg (c6, inp) = Inr (c7, inp7)"
    and n: "cfg_get_size cfg P_cf \<noteq> 0"
    and e: "\<not> list_ex (\<lambda>i. cf c7 ! i = []) [0..<cfg_get_size cfg P_cf]"
    and o: "verify_out_files D E cfg P_cfout (cfout c7) (cfg_get_size cfg P_cf) (ovwrite c7) inp7
              = Inr (arr, inp8)"
    and b: "bintype c7 = FCFC_BIN_SMU D"
  shows "conf_verify D E cfg conf inp = Inl FCFC_ERR_CFG"
proof -
  from verify_head_Inr(1)[OF h] have c6: "c6 = head_result D cfg conf" .
  from verify_pair_count_file_Inr[OF p] obtain k where
    c7: "c7 = c6\<lparr>comp_pc := k, pcout := (if cfg_is_set cfg P_pcout then pcout c6 else [])\<rparr>"
    by blast
  have p7: "poles c7 = poles conf" by (subst c7) (simp add: c6 head_result_simps)
  let ?d = "c7\<lparr>ncf := cfg_get_size cfg P_cf, cfout := arr\<rparr>"
  have wd: "length (poles ?d) = cfg_get_size cfg P_poles" using wf p7 by simp
  have ld: "l \<in> set (poles ?d)" using l p7 by simp
  from l have "poles conf \<noteq> []" by auto
  with wf have np: "cfg_get_size cfg P_poles \<noteq> 0" by (metis length_0_conv)
  from poles_result_ends[OF wd ld] bad
  have "poles (poles_result cfg ?d) ! 0 < 0 \<or>
        poles (poles_result cfg ?d) ! (npole (poles_result cfg ?d) - 1) > FCFC_MAX_ELL D"
    by auto
  then have m: "verify_multipole D E cfg (?d, inp8) = Inl FCFC_ERR_CFG"
    by (rule verify_multipole_range_Inl[OF np])
  have "verify_cf D E cfg (c7, inp7) = verify_multipole D E cfg (?d, inp8)"
    using n e o b by (simp add: verify_cf_def Let_def bind_err_def)
  with m have "verify_cf D E cfg (c7, inp7) = Inl FCFC_ERR_CFG" by simp
  with h p show ?thesis by (simp add: conf_verify_def bind_err_def)
qed

lemma verify_cf_empty_estimator:
  assumes "cfg_get_size cfg P_cf \<noteq> 0"
    and "list_ex (\<lambda>i. cf c ! i = []) [0..<cfg_get_size cfg P_cf]"
  shows "verify_cf D E cfg (c, inp) = Inl FCFC_ERR_CFG"
  using assms by (simp add: verify_cf_def Let_def)

lemma verify_out_files_unset:
  "\<not> cfg_is_set cfg par \<Longrightarrow> verify_out_files D E cfg par arr n ovw inp = Inr ([], inp)"
  by (simp add: verify_out_files_def)

text \<open>
  The same when no file is checked before the MULTIPOLE section and no allocation fails:
  every earlier failure is itself \<^verbatim>\<open>FCFC_ERR_CFG\<close>.
\<close>

lemma conf_verify_multipole_nofiles_CFG:
  assumes wf: "length (poles conf) = cfg_get_size cfg P_poles"
    and l: "l \<in> set (poles conf)" and bad: "l < 0 \<or> FCFC_MAX_ELL D < l"
    and b: "(if cfg_is_set cfg P_bintype then bintype conf else DEFAULT_BINNING D) = FCFC_BIN_SMU D"
    and n: "cfg_get_size cfg P_cf \<noteq> 0"
    and np: "\<not> cfg_is_set cfg P_pcout" and nc: "\<not> cfg_is_set cfg P_cfout"
    and m: "\<forall>a. alloc_ok E a"
  shows "conf_verify D E cfg conf inp = Inl FCFC_ERR_CFG"
proof (cases "verify_head D E cfg conf")
  case (Inl e)
  from verify_head_Inl[OF Inl] m have "e = FCFC_ERR_CFG" by blast
  with Inl show ?thesis by (simp add: conf_verify_head_Inl)
next
  case (Inr c6)
  show ?thesis
  proof (cases "verify_pair_count_file D E cfg (c6, inp)")
    case (Inl e)
    from verify_pair_count_file_nofile_Inl[OF Inl np] conf_verify_pcf_Inl[OF Inr Inl]
    show ?thesis by simp
  next
    case pr: (Inr s7)
    obtain c7 inp7 where s7: "s7 = (c7, inp7)" by (cases s7)
    note p = pr[unfolded s7]
    from verify_head_Inr(1)[OF Inr] have c6: "c6 = head_result D cfg conf" .
    from verify_pair_count_file_Inr[OF p] obtain k where
      c7: "c7 = c6\<lparr>comp_pc := k, pcout := (if cfg_is_set cfg P_pcout then pcout c6 else [])\<rparr>"
      by blast
    have b7: "bintype c7 = FCFC_BIN_SMU D"
      by (subst c7) (simp add: c6 head_result_simps b)
    show ?thesis
    proof (cases "list_ex (\<lambda>i. cf c7 ! i = []) [0..<cfg_get_size cfg P_cf]")
      case True
      from verify_cf_empty_estimator[OF n True]
      have "verify_cf D E cfg (c7, inp7) = Inl FCFC_ERR_CFG" .
      with Inr p show ?thesis by (simp add: conf_verify_def bind_err_def)
    next
      case False
      show ?thesis
        by (rule conf_verify_multipole_CFG[OF wf l bad Inr p n False
              verify_out_files_unset[OF nc] b7])
    qed
  qed
qed

section \<open>The box size (claim C3)\<close>

text \<open>
  Claim C3, as the code has it. BOX_SIZE is mandatory: without it \<open>conf_verify\<close> never
  succeeds, and returns \<^verbatim>\<open>FCFC_ERR_CFG\<close> unless an allocation failed before. When
  \<open>conf_verify\<close> succeeds, one or at least three values were given, a single value has
  been expanded to three equal side lengths, and each of the three side lengths in use is
  finite and positive.
\<close>

theorem box_size_required:
  "(cfg_get_size cfg P_bsize = 0 \<longrightarrow> (\<exists>e. conf_verify D E cfg conf inp = Inl e))
   \<and> (cfg_get_size cfg P_bsize = 0 \<and> (\<forall>a. alloc_ok E a) \<longrightarrow>
        conf_verify D E cfg conf inp = Inl FCFC_ERR_CFG)
   \<and> (conf_verify D E cfg conf inp = Inr (conf', inp') \<longrightarrow>
        cfg_get_size cfg P_bsize \<noteq> 0 \<and> cfg_get_size cfg P_bsize \<noteq> 2
        \<and> bsize conf' = (if cfg_get_size cfg P_bsize = 1 then replicate 3 (bsize conf ! 0)
                          else bsize conf)
        \<and> (\<forall>i<3. \<exists>r>0. bsize conf' ! i = Finite r))"
proof (intro conjI impI)
  assume u: "cfg_get_size cfg P_bsize = 0"
  from verify_head_unset_box[OF u] obtain e where "verify_head D E cfg conf = Inl e" by blast
  then show "\<exists>e. conf_verify D E cfg conf inp = Inl e"
    by (blast dest: conf_verify_head_Inl)
next
  assume u: "cfg_get_size cfg P_bsize = 0 \<and> (\<forall>a. alloc_ok E a)"
  from u have u0: "cfg_get_size cfg P_bsize = 0" by simp
  from verify_head_unset_box[OF u0] obtain e where
    e: "verify_head D E cfg conf = Inl e" by blast
  from verify_head_Inl[OF e] u have "e = FCFC_ERR_CFG" by blast
  with e show "conf_verify D E cfg conf inp = Inl FCFC_ERR_CFG"
    by (simp add: conf_verify_head_Inl)
next
  assume s: "conf_verify D E cfg conf inp = Inr (conf', inp')"
  note h = conf_verify_core(1)[OF s]
  from verify_head_box[OF h] conf_verify_core(6)[OF s]
  show "cfg_get_size cfg P_bsize \<noteq> 0" "cfg_get_size cfg P_bsize \<noteq> 2"
    "bsize conf' = (if cfg_get_size cfg P_bsize = 1 then replicate 3 (bsize conf ! 0)
                          else bsize conf)"
    "\<forall>i<3. \<exists>r>0. bsize conf' ! i = Finite r"
    by (simp_all add: head_result_simps)
qed

text \<open>
  The theorem at work: the example configuration with the single box size 1000 is accepted
  with the size expanded, and the same configuration without a box size is rejected.
\<close>

theorem box_size_required_witness:
  "conf_verify ex_defs ex_os ex_cfg ex_conf [] = Inr (ex_result, [])
   \<and> bsize ex_result = replicate 3 (Finite 1000)
   \<and> cfg_get_size ex_cfg_nobox P_bsize = 0
   \<and> conf_verify ex_defs ex_os ex_cfg_nobox (ex_conf\<lparr>bsize := []\<rparr>) [] = Inl FCFC_ERR_CFG"
proof -
  have a: "conf_verify ex_defs ex_os ex_cfg ex_conf [] = Inr (ex_result, [])" by code_simp
  have s: "cfg_get_size ex_cfg P_bsize = 1" by (simp add: ex_cfg_def ex_sizes_def)
  have b: "bsize ex_conf ! 0 = Finite 1000" by (simp add: ex_conf_def)
  have u: "cfg_get_size ex_cfg_nobox P_bsize = 0 \<and> (\<forall>a. alloc_ok ex_os a)"
    by (simp add: ex_cfg_nobox_def ex_os_def)
  from box_size_required[where cfg = ex_cfg and D = ex_defs and E = ex_os and conf = ex_conf
      and inp = "[]" and conf' = ex_result and inp' = "[]"] a s b
  have 1: "bsize ex_result = replicate 3 (Finite 1000)" by simp
  from box_size_required[where cfg = ex_cfg_nobox and D = ex_defs and E = ex_os
      and conf = "ex_conf\<lparr>bsize := []\<rparr>" and inp = "[]"] u
  have 2: "conf_verify ex_defs ex_os ex_cfg_nobox (ex_conf\<lparr>bsize := []\<rparr>) [] = Inl FCFC_ERR_CFG"
    by blast
  from a 1 2 u show ?thesis by blast
qed

text \<open>
  Claim C3 as stated says that a configuration without box side-lengths is accepted as
  non-periodic. The example configuration without BOX_SIZE is rejected.
\<close>

theorem box_optional_counterexample:
  "conf_verify ex_defs ex_os ex_cfg_nobox (ex_conf\<lparr>bsize := []\<rparr>) [] = Inl FCFC_ERR_CFG"
  by code_simp

section \<open>Duplicated pair identifiers and catalog labels (claim C7)\<close>

text \<open>
  Claim C7. The arrays are as long as libcfg reports them. After a successful
  \<open>conf_verify\<close> the pair identifiers are pairwise distinct and so are the catalog
  labels, both unchanged. If two pair identifiers or two catalog labels coincide,
  \<open>conf_verify\<close> fails, and with \<^verbatim>\<open>FCFC_ERR_CFG\<close> when no allocation fails.
\<close>

theorem duplicates_rejected:
  "length (label conf) = cfg_get_size cfg P_label \<Longrightarrow>
   length (pc conf) = cfg_get_size cfg P_pc \<Longrightarrow>
   (conf_verify D E cfg conf inp = Inr (conf', inp') \<longrightarrow>
      pc conf' = pc conf \<and> distinct (pc conf') \<and> label conf' = label conf \<and> distinct (label conf'))
   \<and> ((\<not> distinct (pc conf) \<or> \<not> distinct (label conf)) \<longrightarrow>
        (\<exists>e. conf_verify D E cfg conf inp = Inl e))
   \<and> ((\<not> distinct (pc conf) \<or> \<not> distinct (label conf)) \<and> (\<forall>a. alloc_ok E a) \<longrightarrow>
        conf_verify D E cfg conf inp = Inl FCFC_ERR_CFG)"
proof -
  assume wl: "length (label conf) = cfg_get_size cfg P_label"
    and wp: "length (pc conf) = cfg_get_size cfg P_pc"
  have lab: "(if cfg_get_size cfg P_label = 0 then [] else label conf) = label conf"
    using wl by auto
  have ok: "distinct (pc conf) \<and> distinct (label conf)" if "verify_head D E cfg conf = Inr c" for c
    using verify_head_pc(1)[OF that wp] verify_head_labels(1)[OF that wl]
      verify_head_Inr(1)[OF that] lab by (simp add: head_result_simps)
  have 1: "pc conf' = pc conf \<and> distinct (pc conf') \<and> label conf' = label conf \<and> distinct (label conf')"
    if s: "conf_verify D E cfg conf inp = Inr (conf', inp')"
    using ok[OF conf_verify_core(1)[OF s]] conf_verify_core(2,4)[OF s] lab by simp
  have nh: "verify_head D E cfg conf \<noteq> Inr c" if "\<not> distinct (pc conf) \<or> \<not> distinct (label conf)" for c
    using ok[of c] that by blast
  have 2: "\<exists>e. conf_verify D E cfg conf inp = Inl e"
    if d: "\<not> distinct (pc conf) \<or> \<not> distinct (label conf)"
  proof (cases "verify_head D E cfg conf")
    case (Inl e)
    then show ?thesis by (blast dest: conf_verify_head_Inl)
  next
    case (Inr c)
    with nh[OF d] show ?thesis by blast
  qed
  have 3: "conf_verify D E cfg conf inp = Inl FCFC_ERR_CFG"
    if d: "(\<not> distinct (pc conf) \<or> \<not> distinct (label conf)) \<and> (\<forall>a. alloc_ok E a)"
    by (rule conf_verify_head_cases) (use d nh in blast)+
  from 1 2 3 show ?thesis by blast
qed

text \<open>
  The theorem at work on the example configuration and on the same configuration with the
  pair identifier DD given twice.
\<close>

theorem duplicates_rejected_witness:
  "conf_verify ex_defs ex_os ex_cfg ex_conf [] = Inr (ex_result, [])
   \<and> distinct (pc ex_result) \<and> distinct (label ex_result)
   \<and> \<not> distinct (pc ex_conf_dup)
   \<and> conf_verify ex_defs ex_os ex_cfg ex_conf_dup [] = Inl FCFC_ERR_CFG"
proof -
  have a: "conf_verify ex_defs ex_os ex_cfg ex_conf [] = Inr (ex_result, [])" by code_simp
  have w: "length (label ex_conf) = cfg_get_size ex_cfg P_label"
    "length (pc ex_conf) = cfg_get_size ex_cfg P_pc"
    "length (label ex_conf_dup) = cfg_get_size ex_cfg P_label"
    "length (pc ex_conf_dup) = cfg_get_size ex_cfg P_pc"
    by (simp_all add: ex_conf_def ex_conf_dup_def ex_cfg_def ex_sizes_def)
  have d: "\<not> distinct (pc ex_conf_dup)" by (simp add: ex_conf_dup_def)
  have m: "\<forall>a. alloc_ok ex_os a" by (simp add: ex_os_def)
  from duplicates_rejected[OF w(1,2), where D = ex_defs and E = ex_os and inp = "[]"
      and conf' = ex_result and inp' = "[]"] a
  have 1: "distinct (pc ex_result) \<and> distinct (label ex_result)" by blast
  from duplicates_rejected[OF w(3,4), where D = ex_defs and E = ex_os and inp = "[]"] d m
  have 2: "conf_verify ex_defs ex_os ex_cfg ex_conf_dup [] = Inl FCFC_ERR_CFG" by blast
  from a 1 d 2 show ?thesis by blast
qed

section \<open>The shape of a pair identifier (claim C4)\<close>

text \<open>
  Claim C4. The array of pair identifiers is as long as libcfg reports it, and a C string
  holds no NUL before its end. After a successful \<open>conf_verify\<close> every pair identifier
  consists of exactly two uppercase letters. If some identifier has another length or a
  character outside A-Z, \<open>conf_verify\<close> fails, and with \<^verbatim>\<open>FCFC_ERR_CFG\<close> when no
  allocation fails.
\<close>

theorem pair_identifier_shape:
  "length (pc conf) = cfg_get_size cfg P_pc \<Longrightarrow>
   \<forall>s \<in> set (pc conf). CHR 0x00 \<notin> set s \<Longrightarrow>
   (conf_verify D E cfg conf inp = Inr (conf', inp') \<longrightarrow>
      pc conf' = pc conf \<and> npc conf' = length (pc conf) \<and> (\<forall>s \<in> set (pc conf'). two_upper s))
   \<and> ((\<exists>s \<in> set (pc conf). \<not> two_upper s) \<longrightarrow> (\<exists>e. conf_verify D E cfg conf inp = Inl e))
   \<and> ((\<exists>s \<in> set (pc conf). \<not> two_upper s) \<and> (\<forall>a. alloc_ok E a) \<longrightarrow>
        conf_verify D E cfg conf inp = Inl FCFC_ERR_CFG)"
proof -
  assume wp: "length (pc conf) = cfg_get_size cfg P_pc"
    and nul: "\<forall>s \<in> set (pc conf). CHR 0x00 \<notin> set s"
  have ok: "\<forall>s \<in> set (pc conf). two_upper s" if "verify_head D E cfg conf = Inr c" for c
    using verify_head_pc(2)[OF that wp] nul by (auto simp: pc_invalid_iff)
  have 1: "pc conf' = pc conf \<and> npc conf' = length (pc conf) \<and> (\<forall>s \<in> set (pc conf'). two_upper s)"
    if s: "conf_verify D E cfg conf inp = Inr (conf', inp')"
    using ok[OF conf_verify_core(1)[OF s]] conf_verify_core(4,5)[OF s] wp by simp
  have nh: "verify_head D E cfg conf \<noteq> Inr c" if "\<exists>s \<in> set (pc conf). \<not> two_upper s" for c
    using ok[of c] that by blast
  have 2: "\<exists>e. conf_verify D E cfg conf inp = Inl e" if d: "\<exists>s \<in> set (pc conf). \<not> two_upper s"
  proof (cases "verify_head D E cfg conf")
    case (Inl e)
    then show ?thesis by (blast dest: conf_verify_head_Inl)
  next
    case (Inr c)
    with nh[OF d] show ?thesis by blast
  qed
  have 3: "conf_verify D E cfg conf inp = Inl FCFC_ERR_CFG"
    if d: "(\<exists>s \<in> set (pc conf). \<not> two_upper s) \<and> (\<forall>a. alloc_ok E a)"
    by (rule conf_verify_head_cases) (use d nh in blast)+
  from 1 2 3 show ?thesis by blast
qed

text \<open>
  The theorem at work on the example configuration and on one with the identifiers DRR
  and dr.
\<close>

theorem pair_identifier_shape_witness:
  "conf_verify ex_defs ex_os ex_cfg ex_conf [] = Inr (ex_result, [])
   \<and> list_all two_upper (pc ex_result)
   \<and> \<not> two_upper ''DRR''
   \<and> conf_verify ex_defs ex_os ex_cfg ex_conf_badpc [] = Inl FCFC_ERR_CFG"
proof -
  have a: "conf_verify ex_defs ex_os ex_cfg ex_conf [] = Inr (ex_result, [])" by code_simp
  have w: "length (pc ex_conf) = cfg_get_size ex_cfg P_pc"
    "length (pc ex_conf_badpc) = cfg_get_size ex_cfg P_pc"
    by (simp_all add: ex_conf_def ex_conf_badpc_def ex_cfg_def ex_sizes_def)
  have n: "\<forall>s \<in> set (pc ex_conf). CHR 0x00 \<notin> set s"
    "\<forall>s \<in> set (pc ex_conf_badpc). CHR 0x00 \<notin> set s"
    by (simp_all add: ex_conf_def ex_conf_badpc_def)
  have b: "\<not> two_upper ''DRR''" by (simp add: two_upper_def)
  then have d: "\<exists>s \<in> set (pc ex_conf_badpc). \<not> two_upper s"
    by (simp add: ex_conf_badpc_def ex_conf_def)
  have m: "\<forall>a. alloc_ok ex_os a" by (simp add: ex_os_def)
  from pair_identifier_shape[OF w(1) n(1), where D = ex_defs and E = ex_os and inp = "[]"
      and conf' = ex_result and inp' = "[]"] a
  have 1: "list_all two_upper (pc ex_result)" unfolding list_all_iff by blast
  from pair_identifier_shape[OF w(2) n(2), where D = ex_defs and E = ex_os and inp = "[]"] d m
  have 2: "conf_verify ex_defs ex_os ex_cfg ex_conf_badpc [] = Inl FCFC_ERR_CFG" by blast
  from a 1 b 2 show ?thesis by blast
qed

section \<open>Pair identifiers and catalog labels (claim C5)\<close>



section \<open>Unset catalog labels (claim C9)\<close>

text \<open>
  Claim C9. When CATALOG_LABEL is not set (its size is 0), a successful \<open>conf_verify\<close>
  leaves the number of catalogs at 0 and the label array empty, PAIR_COUNT_FILE is set
  and no pair identifier is marked for computation. When PAIR_COUNT_FILE is not set
  either, so that every pair would be computed, \<open>conf_verify\<close> fails, and with
  \<^verbatim>\<open>FCFC_ERR_CFG\<close> when no allocation fails.
\<close>

theorem unset_labels_compute_nothing:
  "cfg_get_size cfg P_label = 0 \<Longrightarrow>
   (conf_verify D E cfg conf inp = Inr (conf', inp') \<longrightarrow>
      ninput conf' = 0 \<and> label conf' = [] \<and> cfg_is_set cfg P_pcout \<and> 0 < npc conf'
      \<and> (\<forall>i<npc conf'. \<not> comp_pc conf' ! i))
   \<and> (\<not> cfg_is_set cfg P_pcout \<longrightarrow> (\<exists>e. conf_verify D E cfg conf inp = Inl e))
   \<and> (\<not> cfg_is_set cfg P_pcout \<and> (\<forall>a. alloc_ok E a) \<longrightarrow>
        conf_verify D E cfg conf inp = Inl FCFC_ERR_CFG)"
proof -
  assume u: "cfg_get_size cfg P_label = 0"
  let ?h = "head_result D cfg conf"
  have lf: "label_found ?h i = 0" for i
    by (rule label_found_no_input) (simp add: head_result_simps u)
  have 1: "ninput c' = 0 \<and> label c' = [] \<and> cfg_is_set cfg P_pcout \<and> 0 < npc c'
      \<and> (\<forall>i<npc c'. \<not> comp_pc c' ! i)"
    if s: "conf_verify D E cfg conf inp = Inr (c', inp')" for c' inp'
  proof -
    from verify_head_npc[OF conf_verify_core(1)[OF s]] have n: "0 < cfg_get_size cfg P_pc" by simp
    have nc: "\<not> comp_pc c' ! i" if "i < cfg_get_size cfg P_pc" for i
      using conf_verify_core(12)[OF s that] lf[of i] by auto
    from nc[OF n] conf_verify_core(11)[OF s n] have "cfg_is_set cfg P_pcout" by blast
    with nc n conf_verify_core(2,3,5)[OF s] u show ?thesis by simp
  qed
  have nosucc: "conf_verify D E cfg conf inp \<noteq> Inr r" if "\<not> cfg_is_set cfg P_pcout" for r
    using 1[of "fst r" "snd r"] that by auto
  have 2: "\<exists>e. conf_verify D E cfg conf inp = Inl e" if "\<not> cfg_is_set cfg P_pcout"
    using nosucc[OF that] by (cases "conf_verify D E cfg conf inp") auto
  have 3: "conf_verify D E cfg conf inp = Inl FCFC_ERR_CFG"
    if a: "\<not> cfg_is_set cfg P_pcout \<and> (\<forall>a. alloc_ok E a)"
  proof (rule conf_verify_nofile_CFG)
    show "\<not> cfg_is_set cfg P_pcout" "\<forall>a. alloc_ok E a" using a by blast+
    fix c s assume h: "verify_head D E cfg conf = Inr c"
    show "verify_pair_count_file D E cfg (c, inp) \<noteq> Inr s"
    proof
      assume p: "verify_pair_count_file D E cfg (c, inp) = Inr s"
      obtain c7 inp7 where s7: "s = (c7, inp7)" by (cases s)
      from verify_head_Inr(1)[OF h] have ch: "c = ?h" .
      from verify_pair_count_file_Inr[OF p[unfolded s7 ch]] obtain l where
        len: "length l = length (comp_pc ?h)" and
        l: "\<forall>i<npc ?h. i < length l \<longrightarrow> (\<not> cfg_is_set cfg P_pcout \<longrightarrow> l ! i)
                  \<and> (l ! i \<longrightarrow> label_found ?h i = 2)" by blast
      from verify_head_npc[OF h] have n: "0 < cfg_get_size cfg P_pc" by simp
      from l len n a have "label_found ?h 0 = 2" by (simp add: head_result_simps)
      with lf[of 0] show False by simp
    qed
  qed
  from 1 2 3 show ?thesis by blast
qed

text \<open>
  The theorem at work: without labels the example configuration that reads its only pair
  count from a file is accepted with nothing to compute, and the same configuration
  without PAIR_COUNT_FILE is rejected.
\<close>

theorem unset_labels_compute_nothing_witness:
  "cfg_get_size ex_cfg_read P_label = 0
   \<and> conf_verify ex_defs ex_os ex_cfg_read ex_conf_read [] = Inr (ex_result_read, [])
   \<and> ninput ex_result_read = 0 \<and> label ex_result_read = [] \<and> \<not> comp_pc ex_result_read ! 0
   \<and> \<not> cfg_is_set (ex_cfg_read\<lparr>cfg_is_set := (\<lambda>p. p = P_bsize \<or> p = P_pc)\<rparr>) P_pcout
   \<and> conf_verify ex_defs ex_os (ex_cfg_read\<lparr>cfg_is_set := (\<lambda>p. p = P_bsize \<or> p = P_pc)\<rparr>)
        ex_conf_read [] = Inl FCFC_ERR_CFG"
proof -
  let ?cfg = "ex_cfg_read\<lparr>cfg_is_set := (\<lambda>p. p = P_bsize \<or> p = P_pc)\<rparr>"
  have u: "cfg_get_size ex_cfg_read P_label = 0" "cfg_get_size ?cfg P_label = 0"
    by (simp_all add: ex_cfg_read_def ex_sizes_read_def)
  have a: "conf_verify ex_defs ex_os ex_cfg_read ex_conf_read [] = Inr (ex_result_read, [])"
    by code_simp
  have n: "\<not> cfg_is_set ?cfg P_pcout" by simp
  have m: "\<forall>a. alloc_ok ex_os a" by (simp add: ex_os_def)
  from unset_labels_compute_nothing[OF u(1), where D = ex_defs and E = ex_os
      and conf = ex_conf_read and inp = "[]" and conf' = ex_result_read and inp' = "[]"] a
  have 1: "ninput ex_result_read = 0 \<and> label ex_result_read = []
           \<and> (\<forall>i<npc ex_result_read. \<not> comp_pc ex_result_read ! i)" by blast
  then have z: "\<not> comp_pc ex_result_read ! 0" by (simp add: ex_result_read_def)
  from unset_labels_compute_nothing[OF u(2), where D = ex_defs and E = ex_os
      and conf = ex_conf_read and inp = "[]"] n m
  have 2: "conf_verify ex_defs ex_os ?cfg ex_conf_read [] = Inl FCFC_ERR_CFG" by blast
  from u(1) a 1 z n 2 show ?thesis by blast
qed

section \<open>Pair counts read from a file are not checked against the labels (claim C10)\<close>

text \<open>
  Claim C10. In the loop over the pair identifiers, when \<open>check_output\<close> returns
  \<^verbatim>\<open>FCFC_ERR_SAVE\<close> for the file of identifier \<open>i\<close>, the round succeeds with
  \<^verbatim>\<open>comp_pc[i] = false\<close> whatever the catalog labels \<open>L\<close> and their number \<open>n\<close> are:
  they are not consulted.
\<close>

theorem read_pair_skips_label_check:
  "i < length (comp_pc conf) \<Longrightarrow>
   check_output D E (pcout conf ! i) (ovwrite conf) (FCFC_OVERWRITE_ALL D) inp
     = (Some FCFC_ERR_SAVE, inp') \<Longrightarrow>
   pc_file_body D E i (conf\<lparr>label := L, ninput := n\<rparr>, inp)
     = Inr (conf\<lparr>label := L, ninput := n, comp_pc := (comp_pc conf)[i := False]\<rparr>, inp')"
  by (simp add: pc_file_body_def check_labels_def bind_err_def)

text \<open>
  The theorem at work, and a whole run: with the catalogs D and R, the pair identifier XY,
  whose file exists and is kept at the overwrite level in use, is accepted.
\<close>

theorem read_pair_skips_label_check_witness:
  "check_output ex_defs ex_os (pcout ex_result_read ! 0) (ovwrite ex_result_read)
     (FCFC_OVERWRITE_ALL ex_defs) [] = (Some FCFC_ERR_SAVE, [])
   \<and> pc_file_body ex_defs ex_os 0 (ex_result_read\<lparr>label := ''DR'', ninput := 2\<rparr>, [])
     = Inr (ex_result_read\<lparr>label := ''DR'', ninput := 2,
                           comp_pc := (comp_pc ex_result_read)[0 := False]\<rparr>, [])
   \<and> conf_verify ex_defs ex_os ex_cfg_read_lab (ex_conf_read\<lparr>label := ''DR''\<rparr>) []
     = Inr (ex_result_read_lab, [])
   \<and> pc ex_result_read_lab = [''XY''] \<and> label ex_result_read_lab = ''DR''
   \<and> comp_pc ex_result_read_lab = [False]"
proof -
  have l: "0 < length (comp_pc ex_result_read)" by (simp add: ex_result_read_def)
  have c: "check_output ex_defs ex_os (pcout ex_result_read ! 0) (ovwrite ex_result_read)
     (FCFC_OVERWRITE_ALL ex_defs) [] = (Some FCFC_ERR_SAVE, [])" by code_simp
  have a: "conf_verify ex_defs ex_os ex_cfg_read_lab (ex_conf_read\<lparr>label := ''DR''\<rparr>) []
     = Inr (ex_result_read_lab, [])" by code_simp
  have r: "pc ex_result_read_lab = [''XY''] \<and> label ex_result_read_lab = ''DR''
   \<and> comp_pc ex_result_read_lab = [False]"
    by (simp add: ex_result_read_lab_def ex_result_read_def)
  from read_pair_skips_label_check[OF l c, where L = "''DR''" and n = 2] c a r
  show ?thesis by blast
qed

section \<open>The overwrite level and the pair-count files (claim C6)\<close>

text \<open>
  Claim C6, as the code has it. For identifier \<open>i\<close> with a non-empty file name and a
  non-negative overwrite level, one round of the loop over the pair identifiers
  \<^item> marks the identifier as read (\<^verbatim>\<open>comp_pc[i] = false\<close>) when the file exists, the level
    lies strictly between \<^verbatim>\<open>FCFC_OVERWRITE_NONE\<close> and \<^verbatim>\<open>FCFC_OVERWRITE_ALL\<close> and the file is
    readable;
  \<^item> stops with \<^verbatim>\<open>FCFC_ERR_FILE\<close> when the file exists and the level is at most
    \<^verbatim>\<open>FCFC_OVERWRITE_NONE\<close>, when the file exists and is to be overwritten but is not
    writable, when it exists and is to be read but is not readable, and when it does not
    exist and its directory cannot be entered;
  \<^item> otherwise does what the loop without PAIR_COUNT_FILE does: it marks the identifier
    for computation and checks its letters against the labels.
  Whenever the round succeeds, the identifier is marked for computation exactly when the
  condition for reading fails.
\<close>

theorem overwrite_level_decides:
  "pcout conf ! i \<noteq> [] \<Longrightarrow> 0 \<le> ovwrite conf \<Longrightarrow> i < length (comp_pc conf) \<Longrightarrow>
   (pc_read_cond D E (pcout conf ! i) (ovwrite conf) \<longrightarrow>
      pc_file_body D E i (conf, inp) = Inr (conf\<lparr>comp_pc := (comp_pc conf)[i := False]\<rparr>, inp))
   \<and> (pc_abort_cond D E (pcout conf ! i) (ovwrite conf) \<longrightarrow>
        pc_file_body D E i (conf, inp) = Inl FCFC_ERR_FILE)
   \<and> (\<not> pc_read_cond D E (pcout conf ! i) (ovwrite conf)
        \<and> \<not> pc_abort_cond D E (pcout conf ! i) (ovwrite conf) \<longrightarrow>
        pc_file_body D E i (conf, inp) = pc_nofile_body i (conf, inp))
   \<and> (\<forall>c inp'. pc_file_body D E i (conf, inp) = Inr (c, inp') \<longrightarrow>
        (comp_pc c ! i \<longleftrightarrow> \<not> pc_read_cond D E (pcout conf ! i) (ovwrite conf)))"
proof -
  assume f: "pcout conf ! i \<noteq> []" and o: "0 \<le> ovwrite conf" and i: "i < length (comp_pc conf)"
  let ?f = "pcout conf ! i" and ?o = "ovwrite conf"
  have 1: "pc_file_body D E i (conf, inp) = Inr (conf\<lparr>comp_pc := (comp_pc conf)[i := False]\<rparr>, inp)"
    if r: "pc_read_cond D E ?f ?o"
    using i by (simp add: pc_file_body_def check_output_read[OF f o r] check_labels_def bind_err_def)
  have 2: "pc_file_body D E i (conf, inp) = Inl FCFC_ERR_FILE" if a: "pc_abort_cond D E ?f ?o"
    by (simp add: pc_file_body_def check_output_abort[OF f o a])
  have 3: "pc_file_body D E i (conf, inp) = pc_nofile_body i (conf, inp)"
    if n: "\<not> pc_read_cond D E ?f ?o" "\<not> pc_abort_cond D E ?f ?o"
    by (simp add: pc_file_body_def pc_nofile_body_def check_output_write[OF f o n])
  have 4: "comp_pc c ! i \<longleftrightarrow> \<not> pc_read_cond D E ?f ?o"
    if s: "pc_file_body D E i (conf, inp) = Inr (c, inp')" for c inp'
  proof (cases "pc_read_cond D E ?f ?o")
    case True
    with 1 s i show ?thesis by auto
  next
    case False
    with 2 s have "\<not> pc_abort_cond D E ?f ?o" by auto
    from 3[OF False this] s have "pc_nofile_body i (conf, inp) = Inr (c, inp')" by simp
    from pc_nofile_body_Inr[OF this] i False show ?thesis by simp
  qed
  from 1 2 3 4 show ?thesis by blast
qed

text \<open>
  The theorem at work on the three cases: the file \<^verbatim>\<open>DD.dat\<close> exists and is readable, so
  that it is read at level 1 and the run stops at level 0; a file that does not exist in
  the current directory is computed.
\<close>

theorem overwrite_level_decides_witness:
  "pc_read_cond ex_defs ex_os (pcout ex_result_read ! 0) (ovwrite ex_result_read)
   \<and> pc_file_body ex_defs ex_os 0 (ex_result_read, [])
       = Inr (ex_result_read\<lparr>comp_pc := (comp_pc ex_result_read)[0 := False]\<rparr>, [])
   \<and> \<not> comp_pc (ex_result_read\<lparr>comp_pc := (comp_pc ex_result_read)[0 := False]\<rparr>) ! 0
   \<and> pc_abort_cond ex_defs ex_os (pcout ex_result_read ! 0) 0
   \<and> pc_file_body ex_defs ex_os 0 (ex_result_read\<lparr>ovwrite := 0\<rparr>, []) = Inl FCFC_ERR_FILE
   \<and> \<not> pc_read_cond ex_defs ex_os ''new.dat'' 1
   \<and> \<not> pc_abort_cond ex_defs ex_os ''new.dat'' 1
   \<and> pc_file_body ex_defs ex_os 0 (ex_result_read\<lparr>pcout := [''new.dat'']\<rparr>, [])
       = pc_nofile_body 0 (ex_result_read\<lparr>pcout := [''new.dat'']\<rparr>, [])"
proof -
  let ?a = "ex_result_read\<lparr>ovwrite := 0\<rparr>" and ?n = "ex_result_read\<lparr>pcout := [''new.dat'']\<rparr>"
  have h: "pcout ex_result_read ! 0 \<noteq> []" "0 \<le> ovwrite ex_result_read"
    "0 < length (comp_pc ex_result_read)"
    "pcout ?a ! 0 \<noteq> []" "0 \<le> ovwrite ?a" "0 < length (comp_pc ?a)"
    "pcout ?n ! 0 \<noteq> []" "0 \<le> ovwrite ?n" "0 < length (comp_pc ?n)"
    by (simp_all add: ex_result_read_def)
  have r: "pc_read_cond ex_defs ex_os (pcout ex_result_read ! 0) (ovwrite ex_result_read)"
    by (simp add: pc_read_cond_def ex_result_read_def ex_os_def ex_defs_def)
  have a: "pc_abort_cond ex_defs ex_os (pcout ex_result_read ! 0) 0"
    by (simp add: pc_abort_cond_def ex_result_read_def ex_os_def ex_defs_def)
  have n: "\<not> pc_read_cond ex_defs ex_os ''new.dat'' 1" "\<not> pc_abort_cond ex_defs ex_os ''new.dat'' 1"
    by (simp_all add: pc_read_cond_def pc_abort_cond_def ex_os_def ex_defs_def path_dir_def)
  have e: "pcout ?a ! 0 = pcout ex_result_read ! 0" "ovwrite ?a = 0"
    "pcout ?n ! 0 = ''new.dat''" "ovwrite ?n = 1"
    by (simp_all add: ex_result_read_def)
  from overwrite_level_decides[OF h(1,2,3), where D = ex_defs and E = ex_os and inp = "[]"] r
  have 1: "pc_file_body ex_defs ex_os 0 (ex_result_read, [])
       = Inr (ex_result_read\<lparr>comp_pc := (comp_pc ex_result_read)[0 := False]\<rparr>, [])"
    by blast
  with overwrite_level_decides[OF h(1,2,3), where D = ex_defs and E = ex_os and inp = "[]"] r
  have 4: "\<not> comp_pc (ex_result_read\<lparr>comp_pc := (comp_pc ex_result_read)[0 := False]\<rparr>) ! 0"
    by blast
  from overwrite_level_decides[OF h(4,5,6), where D = ex_defs and E = ex_os and inp = "[]"] a
  have 2: "pc_file_body ex_defs ex_os 0 (?a, []) = Inl FCFC_ERR_FILE"
    unfolding e by blast
  from overwrite_level_decides[OF h(7,8,9), where D = ex_defs and E = ex_os and inp = "[]"] n
  have 3: "pc_file_body ex_defs ex_os 0 (?n, []) = pc_nofile_body 0 (?n, [])"
    unfolding e by blast
  from r 1 4 a 2 n 3 show ?thesis by blast
qed

text \<open>
  Claim C6 as stated says that an identifier whose file is neither read nor protected by
  a level at or below \<^verbatim>\<open>FCFC_OVERWRITE_NONE\<close> is marked for computation. With the file
  \<^verbatim>\<open>DD.dat\<close> present but not writable and the level \<^verbatim>\<open>FCFC_OVERWRITE_ALL\<close>, the level is
  neither below \<^verbatim>\<open>FCFC_OVERWRITE_ALL\<close> nor at or below \<^verbatim>\<open>FCFC_OVERWRITE_NONE\<close>, and
  \<open>conf_verify\<close> stops with a file error.
\<close>

theorem overwrite_level_counterexample:
  "pcout ex_conf_read = [''DD.dat''] \<and> access ex_os ''DD.dat'' F_OK
   \<and> \<not> (2 < FCFC_OVERWRITE_ALL ex_defs) \<and> \<not> (2 \<le> FCFC_OVERWRITE_NONE ex_defs)
   \<and> cfg_is_set ex_cfg_read P_pcout
   \<and> conf_verify ex_defs ex_os ex_cfg_read (ex_conf_read\<lparr>ovwrite := 2\<rparr>) [] = Inl FCFC_ERR_FILE"
proof -
  have "conf_verify ex_defs ex_os ex_cfg_read (ex_conf_read\<lparr>ovwrite := 2\<rparr>) [] = Inl FCFC_ERR_FILE"
    by code_simp
  then show ?thesis
    by (simp add: ex_conf_read_def ex_os_def ex_defs_def ex_cfg_read_def ex_sizes_read_def)
qed

section \<open>The multipole orders (claim C1)\<close>

text \<open>
  Claim C1, as the code has it. The array of orders is as long as libcfg reports it.
  After a successful \<open>conf_verify\<close> under the (s,mu) scheme with at least one estimator,
  the first \<^verbatim>\<open>npole\<close> elements of \<^verbatim>\<open>poles\<close> are the distinct requested orders in strictly
  increasing order, \<^verbatim>\<open>npole\<close> is their number, and every requested order lies in
  \<open>[0, FCFC_MAX_ELL]\<close>. When an order outside that range is requested, the MULTIPOLE
  section returns \<^verbatim>\<open>FCFC_ERR_CFG\<close> and \<open>conf_verify\<close> under the (s,mu) scheme with an
  estimator fails. The failure of \<open>conf_verify\<close> is \<^verbatim>\<open>FCFC_ERR_CFG\<close> whenever the sections
  before the MULTIPOLE check have passed (the head, the pair-count files, non-empty
  estimators, the output files of the estimators), and in particular when no allocation
  fails and neither PAIR_COUNT_FILE nor CF_OUTPUT_FILE is set; a section before it may
  fail first with its own error.
\<close>

theorem multipoles_sorted_unique_in_range:
  "length (poles conf) = cfg_get_size cfg P_poles \<Longrightarrow>
   (conf_verify D E cfg conf inp = Inr (conf', inp') \<and> bintype conf' = FCFC_BIN_SMU D
      \<and> ncf conf' \<noteq> 0 \<longrightarrow>
        take (npole conf') (poles conf') = sorted_list_of_set (set (poles conf))
      \<and> sorted_wrt (<) (take (npole conf') (poles conf'))
      \<and> npole conf' = card (set (poles conf))
      \<and> (\<forall>l \<in> set (poles conf). 0 \<le> l \<and> l \<le> FCFC_MAX_ELL D))
   \<and> ((\<exists>l \<in> set (poles conf). l < 0 \<or> FCFC_MAX_ELL D < l) \<longrightarrow>
        verify_multipole D E cfg (conf, inp) = Inl FCFC_ERR_CFG)
   \<and> ((\<exists>l \<in> set (poles conf). l < 0 \<or> FCFC_MAX_ELL D < l)
        \<and> (if cfg_is_set cfg P_bintype then bintype conf else DEFAULT_BINNING D) = FCFC_BIN_SMU D
        \<and> cfg_get_size cfg P_cf \<noteq> 0 \<longrightarrow>
        (\<exists>e. conf_verify D E cfg conf inp = Inl e))
   \<and> ((\<exists>l \<in> set (poles conf). l < 0 \<or> FCFC_MAX_ELL D < l)
        \<and> verify_head D E cfg conf = Inr c6
        \<and> verify_pair_count_file D E cfg (c6, inp) = Inr (c7, inp7)
        \<and> bintype c7 = FCFC_BIN_SMU D
        \<and> cfg_get_size cfg P_cf \<noteq> 0
        \<and> \<not> list_ex (\<lambda>i. cf c7 ! i = []) [0..<cfg_get_size cfg P_cf]
        \<and> verify_out_files D E cfg P_cfout (cfout c7) (cfg_get_size cfg P_cf) (ovwrite c7) inp7
             = Inr (arr, inp8) \<longrightarrow>
        conf_verify D E cfg conf inp = Inl FCFC_ERR_CFG)
   \<and> ((\<exists>l \<in> set (poles conf). l < 0 \<or> FCFC_MAX_ELL D < l)
        \<and> (if cfg_is_set cfg P_bintype then bintype conf else DEFAULT_BINNING D) = FCFC_BIN_SMU D
        \<and> cfg_get_size cfg P_cf \<noteq> 0
        \<and> \<not> cfg_is_set cfg P_pcout \<and> \<not> cfg_is_set cfg P_cfout \<and> (\<forall>a. alloc_ok E a) \<longrightarrow>
        conf_verify D E cfg conf inp = Inl FCFC_ERR_CFG)"
proof -
  assume wf: "length (poles conf) = cfg_get_size cfg P_poles"
  note sp = poles_result_spec[OF wf]
  have 1: "take (npole c') (poles c') = sorted_list_of_set (set (poles conf))
      \<and> sorted_wrt (<) (take (npole c') (poles c'))
      \<and> npole c' = card (set (poles conf))
      \<and> (\<forall>l \<in> set (poles conf). 0 \<le> l \<and> l \<le> FCFC_MAX_ELL D)"
    if s: "conf_verify D E cfg conf inp = Inr (c', inp')" "bintype c' = FCFC_BIN_SMU D"
      "ncf c' \<noteq> 0" for c' inp'
  proof -
    note cp = conf_verify_poles[OF s]
    have a: "take (npole c') (poles c') = sorted_list_of_set (set (poles conf))"
      unfolding cp(1,2) by (rule sp(1))
    have b: "sorted_wrt (<) (take (npole c') (poles c'))" unfolding a by simp
    have c: "npole c' = card (set (poles conf))" unfolding cp(2) by (rule sp(2))
    have d: "0 \<le> l \<and> l \<le> FCFC_MAX_ELL D" if l: "l \<in> set (poles conf)" for l
    proof -
      from l have "poles conf \<noteq> []" by auto
      with wf have "cfg_get_size cfg P_poles \<noteq> 0" by (metis length_0_conv)
      from cp(3)[OF this] poles_result_ends[OF wf l] show ?thesis
        unfolding cp(1,2) by simp
    qed
    from a b c d show ?thesis by blast
  qed
  have 2: "verify_multipole D E cfg (conf, inp) = Inl FCFC_ERR_CFG"
    if "\<exists>l \<in> set (poles conf). l < 0 \<or> FCFC_MAX_ELL D < l"
  proof -
    from that obtain l where l: "l \<in> set (poles conf)" and bad: "l < 0 \<or> FCFC_MAX_ELL D < l"
      by blast
    from l have "poles conf \<noteq> []" by auto
    with wf have n: "cfg_get_size cfg P_poles \<noteq> 0" by (metis length_0_conv)
    from poles_result_ends[OF wf l] bad
    have "poles (poles_result cfg conf) ! 0 < 0 \<or>
          poles (poles_result cfg conf) ! (npole (poles_result cfg conf) - 1) > FCFC_MAX_ELL D"
      by auto
    then show ?thesis by (rule verify_multipole_range_Inl[OF n])
  qed
  have 3: "\<exists>e. conf_verify D E cfg conf inp = Inl e"
    if b: "(\<exists>l \<in> set (poles conf). l < 0 \<or> FCFC_MAX_ELL D < l)
        \<and> (if cfg_is_set cfg P_bintype then bintype conf else DEFAULT_BINNING D) = FCFC_BIN_SMU D
        \<and> cfg_get_size cfg P_cf \<noteq> 0"
  proof (cases "conf_verify D E cfg conf inp")
    case (Inl e)
    then show ?thesis by blast
  next
    case (Inr r)
    obtain c' inp' where r: "r = (c', inp')" by (cases r)
    note s = Inr[unfolded r]
    from conf_verify_core(7)[OF s] b have bt: "bintype c' = FCFC_BIN_SMU D" by simp
    from conf_verify_Inr[OF s] obtain c7 inp7 c8 f v where
      c: "verify_cf D E cfg (c7, inp7) = Inr (c8, inp')" and
      e: "c' = c8\<lparr>ofmt := f, verbose := v\<rparr>" by blast
    from verify_cf_Inr(2)[OF c] e b have nc: "ncf c' \<noteq> 0" by simp
    from 1[OF s bt nc] b show ?thesis by fastforce
  qed
  have 4: "conf_verify D E cfg conf inp = Inl FCFC_ERR_CFG"
    if a: "(\<exists>l \<in> set (poles conf). l < 0 \<or> FCFC_MAX_ELL D < l)
        \<and> verify_head D E cfg conf = Inr c6
        \<and> verify_pair_count_file D E cfg (c6, inp) = Inr (c7, inp7)
        \<and> bintype c7 = FCFC_BIN_SMU D
        \<and> cfg_get_size cfg P_cf \<noteq> 0
        \<and> \<not> list_ex (\<lambda>i. cf c7 ! i = []) [0..<cfg_get_size cfg P_cf]
        \<and> verify_out_files D E cfg P_cfout (cfout c7) (cfg_get_size cfg P_cf) (ovwrite c7) inp7
             = Inr (arr, inp8)"
  proof -
    from a obtain l where l: "l \<in> set (poles conf)" and bad: "l < 0 \<or> FCFC_MAX_ELL D < l"
      by blast
    from a have h: "verify_head D E cfg conf = Inr c6"
      and p: "verify_pair_count_file D E cfg (c6, inp) = Inr (c7, inp7)"
      and b: "bintype c7 = FCFC_BIN_SMU D"
      and n: "cfg_get_size cfg P_cf \<noteq> 0"
      and e: "\<not> list_ex (\<lambda>i. cf c7 ! i = []) [0..<cfg_get_size cfg P_cf]"
      and o: "verify_out_files D E cfg P_cfout (cfout c7) (cfg_get_size cfg P_cf) (ovwrite c7) inp7
             = Inr (arr, inp8)" by blast+
    show ?thesis by (rule conf_verify_multipole_CFG[OF wf l bad h p n e o b])
  qed
  have 5: "conf_verify D E cfg conf inp = Inl FCFC_ERR_CFG"
    if a: "(\<exists>l \<in> set (poles conf). l < 0 \<or> FCFC_MAX_ELL D < l)
        \<and> (if cfg_is_set cfg P_bintype then bintype conf else DEFAULT_BINNING D) = FCFC_BIN_SMU D
        \<and> cfg_get_size cfg P_cf \<noteq> 0
        \<and> \<not> cfg_is_set cfg P_pcout \<and> \<not> cfg_is_set cfg P_cfout \<and> (\<forall>a. alloc_ok E a)"
  proof -
    from a obtain l where l: "l \<in> set (poles conf)" and bad: "l < 0 \<or> FCFC_MAX_ELL D < l"
      by blast
    from a have b: "(if cfg_is_set cfg P_bintype then bintype conf else DEFAULT_BINNING D)
                      = FCFC_BIN_SMU D"
      and n: "cfg_get_size cfg P_cf \<noteq> 0"
      and np: "\<not> cfg_is_set cfg P_pcout" and nc: "\<not> cfg_is_set cfg P_cfout"
      and m: "\<forall>a. alloc_ok E a" by blast+
    show ?thesis by (rule conf_verify_multipole_nofiles_CFG[OF wf l bad b n np nc m])
  qed
  from 1 2 3 4 5 show ?thesis by blast
qed

text \<open>
  The theorem at work: the requested orders 2, 0, 4, 2 are accepted as 0, 2, 4; the
  request 2, 7, 0, 2 is rejected with \<^verbatim>\<open>FCFC_ERR_CFG\<close>, 7 being above the largest order 6
  of the example, both when no file is configured and when the output file of the
  estimator does not exist yet, so that the sections before the MULTIPOLE check pass.
\<close>

theorem multipoles_sorted_unique_in_range_witness:
  "conf_verify ex_defs ex_os ex_cfg ex_conf [] = Inr (ex_result, [])
   \<and> bintype ex_result = FCFC_BIN_SMU ex_defs \<and> ncf ex_result \<noteq> 0
   \<and> poles ex_conf = [2, 0, 4, 2]
   \<and> take (npole ex_result) (poles ex_result) = sorted_list_of_set (set (poles ex_conf))
   \<and> take (npole ex_result) (poles ex_result) = [0, 2, 4]
   \<and> npole ex_result = card (set (poles ex_conf))
   \<and> FCFC_MAX_ELL ex_defs < 7
   \<and> verify_multipole ex_defs ex_os ex_cfg (ex_conf_badpole, []) = Inl FCFC_ERR_CFG
   \<and> conf_verify ex_defs ex_os ex_cfg ex_conf_badpole [] = Inl FCFC_ERR_CFG
   \<and> verify_out_files ex_defs ex_os ex_cfg_cfout P_cfout [''new.dat''] 1 1 [] = Inr ([''new.dat''], [])
   \<and> conf_verify ex_defs ex_os ex_cfg_cfout (ex_conf_badpole\<lparr>cfout := [''new.dat'']\<rparr>) []
       = Inl FCFC_ERR_CFG"
proof -
  let ?n = "ex_conf_badpole\<lparr>cfout := [''new.dat'']\<rparr>"
  let ?c6 = "head_result ex_defs ex_cfg_cfout ?n"
  let ?c7 = "?c6\<lparr>comp_pc := [True, True, True]\<rparr>"
  have a: "conf_verify ex_defs ex_os ex_cfg ex_conf [] = Inr (ex_result, [])" by code_simp
  have w: "length (poles ex_conf) = cfg_get_size ex_cfg P_poles"
    "length (poles ex_conf_badpole) = cfg_get_size ex_cfg P_poles"
    "length (poles ?n) = cfg_get_size ex_cfg_cfout P_poles"
    by (simp_all add: ex_conf_def ex_conf_badpole_def ex_cfg_def ex_cfg_cfout_def ex_sizes_def)
  have b: "bintype ex_result = FCFC_BIN_SMU ex_defs" "ncf ex_result \<noteq> 0"
    by (simp_all add: ex_result_def ex_defs_def)
  have p: "poles ex_conf = [2, 0, 4, 2]" by (simp add: ex_conf_def)
  have t: "take (npole ex_result) (poles ex_result) = [0, 2, 4]"
    by (simp add: ex_result_def)
  have m: "FCFC_MAX_ELL ex_defs < 7" by (simp add: ex_defs_def)
  then have bad: "\<exists>l \<in> set (poles ex_conf_badpole). l < 0 \<or> FCFC_MAX_ELL ex_defs < l"
    "\<exists>l \<in> set (poles ?n). l < 0 \<or> FCFC_MAX_ELL ex_defs < l"
    by (simp_all add: ex_conf_badpole_def)
  have c: "(if cfg_is_set ex_cfg P_bintype then bintype ex_conf_badpole
            else DEFAULT_BINNING ex_defs) = FCFC_BIN_SMU ex_defs"
    "cfg_get_size ex_cfg P_cf \<noteq> 0" "\<not> cfg_is_set ex_cfg P_pcout" "\<not> cfg_is_set ex_cfg P_cfout"
    "\<forall>a. alloc_ok ex_os a"
    by (simp_all add: ex_cfg_def ex_sizes_def ex_conf_badpole_def ex_conf_def ex_defs_def ex_os_def)
  have h: "verify_head ex_defs ex_os ex_cfg_cfout ?n = Inr ?c6" by code_simp
  have f: "verify_pair_count_file ex_defs ex_os ex_cfg_cfout (?c6, []) = Inr (?c7, [])"
    by code_simp
  have g: "bintype ?c7 = FCFC_BIN_SMU ex_defs" by code_simp
  have s: "cfg_get_size ex_cfg_cfout P_cf = 1"
    by (simp add: ex_cfg_cfout_def ex_sizes_def)
  have e: "\<not> list_ex (\<lambda>i. cf ?c7 ! i = []) [0..<cfg_get_size ex_cfg_cfout P_cf]"
    by code_simp
  have v: "cfout ?c7 = [''new.dat'']" "ovwrite ?c7 = 1" by code_simp+
  have o: "verify_out_files ex_defs ex_os ex_cfg_cfout P_cfout [''new.dat''] 1 1 []
             = Inr ([''new.dat''], [])" by code_simp
  then have o': "verify_out_files ex_defs ex_os ex_cfg_cfout P_cfout (cfout ?c7)
             (cfg_get_size ex_cfg_cfout P_cf) (ovwrite ?c7) [] = Inr ([''new.dat''], [])"
    unfolding v s .
  have s0: "cfg_get_size ex_cfg_cfout P_cf \<noteq> 0" unfolding s by simp
  from multipoles_sorted_unique_in_range[OF w(1), where D = ex_defs and E = ex_os
      and inp = "[]" and conf' = ex_result and inp' = "[]"] a b
  have 1: "take (npole ex_result) (poles ex_result) = sorted_list_of_set (set (poles ex_conf))
           \<and> npole ex_result = card (set (poles ex_conf))" by blast
  from multipoles_sorted_unique_in_range[OF w(2), where D = ex_defs and E = ex_os
      and inp = "[]"] bad(1)
  have 2: "verify_multipole ex_defs ex_os ex_cfg (ex_conf_badpole, []) = Inl FCFC_ERR_CFG"
    by blast
  from multipoles_sorted_unique_in_range[OF w(2), where D = ex_defs and E = ex_os
      and inp = "[]"] bad(1) c
  have 3: "conf_verify ex_defs ex_os ex_cfg ex_conf_badpole [] = Inl FCFC_ERR_CFG"
    by blast
  from multipoles_sorted_unique_in_range[OF w(3), where D = ex_defs and E = ex_os
      and inp = "[]" and ?c6.0 = ?c6 and ?c7.0 = ?c7 and ?inp7.0 = "[]"
      and arr = "[''new.dat'']" and ?inp8.0 = "[]"] bad(2) h f g s0 e o'
  have 4: "conf_verify ex_defs ex_os ex_cfg_cfout ?n [] = Inl FCFC_ERR_CFG"
    by blast
  from a b p 1 t m 2 3 o 4 show ?thesis by blast
qed

text \<open>
  Claim C1 as stated says that an order outside the range makes \<open>conf_verify\<close> fail with a
  ConfigError. With the orders 2, 7, 0, 2, the output file \<^verbatim>\<open>DD.dat\<close> of the estimator
  present and the overwrite level \<^verbatim>\<open>FCFC_OVERWRITE_NONE\<close>, the CF_OUTPUT_FILE section,
  which comes before the MULTIPOLE section, returns a file error.
\<close>

theorem multipole_error_code_counterexample:
  "poles ex_conf_cfout = [2, 7, 0, 2] \<and> FCFC_MAX_ELL ex_defs < 7
   \<and> bintype ex_conf_cfout = FCFC_BIN_SMU ex_defs \<and> cfg_is_set ex_cfg_cfout P_bintype
   \<and> cfg_get_size ex_cfg_cfout P_cf = 1
   \<and> (\<forall>a. alloc_ok ex_os a)
   \<and> conf_verify ex_defs ex_os ex_cfg_cfout ex_conf_cfout [] = Inl FCFC_ERR_FILE
   \<and> FCFC_ERR_FILE \<noteq> FCFC_ERR_CFG"
proof -
  have "conf_verify ex_defs ex_os ex_cfg_cfout ex_conf_cfout [] = Inl FCFC_ERR_FILE"
    by code_simp
  then show ?thesis
    by (simp add: ex_conf_cfout_def ex_conf_badpole_def ex_conf_def ex_defs_def ex_cfg_cfout_def
        ex_sizes_def ex_os_def)
qed

section \<open>An invalid bin specification (claim C2)\<close>

text \<open>
  Claim C2, on the model of \<^verbatim>\<open>compute_cf\<close> taken from the spec. When the separation bins
  violate the invariant of a BinSpec (edges not strictly increasing, fewer than one bin,
  an edge that is not finite or is negative), the invocation ends with a ConfigError
  whatever the pair counting \<open>count\<close> is: it is never run.
\<close>

theorem invalid_bins_abort:
  "\<not> bin_invariant sbins \<Longrightarrow> compute_cf count sbins = Inl FCFC_ERR_CFG"
  by (simp add: compute_cf_def make_binspec_Inl)

text \<open>The theorem at work on edges that repeat a value, on a single edge and on a NaN.\<close>

theorem invalid_bins_abort_witness:
  "\<not> bin_invariant [Finite 0, Finite 1, Finite 1]
   \<and> compute_cf length [Finite 0, Finite 1, Finite 1] = Inl FCFC_ERR_CFG
   \<and> \<not> bin_invariant [Finite 0]
   \<and> compute_cf length [Finite 0] = Inl FCFC_ERR_CFG
   \<and> \<not> bin_invariant [Finite 0, NaN]
   \<and> compute_cf length [Finite 0, NaN] = Inl FCFC_ERR_CFG
   \<and> bin_invariant [Finite 0, Finite 1, Finite 2]
   \<and> compute_cf length [Finite 0, Finite 1, Finite 2] = Inr 3"
proof -
  have a: "\<not> bin_invariant [Finite 0, Finite 1, Finite 1]" "\<not> bin_invariant [Finite 0]"
    "\<not> bin_invariant [Finite 0, NaN]" "bin_invariant [Finite 0, Finite 1, Finite 2]"
    unfolding make_binspec_iff[symmetric] by (simp_all add: make_binspec_def)
  have b: "compute_cf length [Finite 0, Finite 1, Finite 2] = Inr 3"
    by (simp add: compute_cf_def make_binspec_def)
  from invalid_bins_abort[OF a(1), of length] invalid_bins_abort[OF a(2), of length]
    invalid_bins_abort[OF a(3), of length] a b
  show ?thesis by blast
qed

section \<open>A failed verification hands no configuration over (claim C8)\<close>

text \<open>
  Claim C8. Once the structure is allocated and the configuration is read, a non-zero
  result of \<open>conf_verify\<close> makes \<open>load_conf\<close> call \<^verbatim>\<open>conf_destroy\<close> and \<^verbatim>\<open>cfg_destroy\<close> and
  return NULL, without printing; and a configuration that \<open>load_conf\<close> returns is the one
  that \<open>conf_verify\<close> has accepted, not destroyed.
\<close>

theorem load_conf_all_or_nothing:
  "alloc_ok E A_conf \<Longrightarrow> rd conf_init = Some (cfg, conf) \<Longrightarrow>
   (conf_verify D E cfg conf inp = Inl e \<longrightarrow>
      load_conf D E rd inp
        = (None, (if cfg_is_set cfg P_fconf then [Free_fconf] else []) @ [Conf_destroy, Cfg_destroy]))
   \<and> (fst (load_conf D E rd inp) = Some c \<longrightarrow>
        (\<exists>inp'. conf_verify D E cfg conf inp = Inr (c, inp'))
        \<and> Conf_destroy \<notin> set (snd (load_conf D E rd inp)))"
  by (auto simp: load_conf_def split: sum.splits)

text \<open>
  The theorem at work: the example configuration is returned, and without a box size
  nothing is returned and both structures are destroyed.
\<close>

theorem load_conf_all_or_nothing_witness:
  "conf_verify ex_defs ex_os ex_cfg_nobox (ex_conf\<lparr>bsize := []\<rparr>) [] = Inl FCFC_ERR_CFG
   \<and> load_conf ex_defs ex_os ex_read_nobox [] = (None, [Conf_destroy, Cfg_destroy])
   \<and> fst (load_conf ex_defs ex_os ex_read []) = Some ex_result
   \<and> conf_verify ex_defs ex_os ex_cfg ex_conf [] = Inr (ex_result, [])
   \<and> Conf_destroy \<notin> set (snd (load_conf ex_defs ex_os ex_read []))"
proof -
  have m: "alloc_ok ex_os A_conf" by (simp add: ex_os_def)
  have r: "ex_read_nobox conf_init = Some (ex_cfg_nobox, ex_conf\<lparr>bsize := []\<rparr>)"
    "ex_read conf_init = Some (ex_cfg, ex_conf)"
    by (simp_all add: ex_read_nobox_def ex_read_def)
  have z: "conf_verify ex_defs ex_os ex_cfg_nobox (ex_conf\<lparr>bsize := []\<rparr>) [] = Inl FCFC_ERR_CFG"
    by code_simp
  have s: "cfg_is_set ex_cfg_nobox P_fconf = False"
    by (simp add: ex_cfg_nobox_def ex_cfg_def ex_sizes_def)
  have a: "conf_verify ex_defs ex_os ex_cfg ex_conf [] = Inr (ex_result, [])" by code_simp
  then have l: "fst (load_conf ex_defs ex_os ex_read []) = Some ex_result"
    using m by (simp add: load_conf_def ex_read_def)
  from load_conf_all_or_nothing[where rd = ex_read_nobox and E = ex_os and D = ex_defs
      and inp = "[]" and e = FCFC_ERR_CFG, OF m r(1)] z s
  have 1: "load_conf ex_defs ex_os ex_read_nobox [] = (None, [Conf_destroy, Cfg_destroy])"
    by simp
  from load_conf_all_or_nothing[where rd = ex_read and E = ex_os and D = ex_defs
      and inp = "[]" and c = ex_result, OF m r(2)] l
  have 2: "Conf_destroy \<notin> set (snd (load_conf ex_defs ex_os ex_read []))" by blast
  from z 1 l a 2 show ?thesis by blast
qed

end
